theory Spec2Isabelle
  imports Complex_Main
begin

section \<open>Scrape time from the file name\<close>

text \<open>
  The dashboard reads every CSV file of a folder and tags its rows with the time of day
  of the scrape, which it infers from the file name:
  \<^verbatim>\<open>
  def get_scrape_time(filename):
      basename = os.path.basename(filename)
      if 'Mor' in basename:
          return 'Morning'
      elif 'Eve' in basename:
          return 'Evening'
      return 'Unknown'
  \<close>
  \<open>os.path.basename\<close> (POSIX) is the part of the path after its last slash.
  Python's \<open>in\<close> on strings is the contiguous-substring test.
\<close>

definition basename :: "string \<Rightarrow> string" where
  "basename p = rev (takeWhile (\<lambda>c. c \<noteq> CHR ''/'') (rev p))"

fun starts_with :: "string \<Rightarrow> string \<Rightarrow> bool" where
  "starts_with s [] = True"
| "starts_with [] (p # ps) = False"
| "starts_with (c # cs) (p # ps) = (c = p \<and> starts_with cs ps)"

fun str_in :: "string \<Rightarrow> string \<Rightarrow> bool" where
  "str_in p [] = starts_with [] p"
| "str_in p (c # cs) = (starts_with (c # cs) p \<or> str_in p cs)"

definition get_scrape_time :: "string \<Rightarrow> string" where
  "get_scrape_time filename =
     (let bn = basename filename in
      if str_in ''Mor'' bn then ''Morning''
      else if str_in ''Eve'' bn then ''Evening''
      else ''Unknown'')"

section \<open>Floating point\<close>

text \<open>
  The numeric columns are float64 and the figures are Python and NumPy floats. A value
  that is not NaN is an infinity or a finite double, given by its exact rational value;
  NaN, which pandas also uses for a missing cell, is \<open>None\<close>. The two signed zeros
  compare equal and are one value here.
\<close>

datatype f64 = NInf | Fin rat | PInf

instantiation f64 :: linorder
begin

fun less_eq_f64 :: "f64 \<Rightarrow> f64 \<Rightarrow> bool" where
  "less_eq_f64 NInf y = True"
| "less_eq_f64 (Fin a) NInf = False"
| "less_eq_f64 (Fin a) (Fin b) = (a \<le> b)"
| "less_eq_f64 (Fin a) PInf = True"
| "less_eq_f64 PInf NInf = False"
| "less_eq_f64 PInf (Fin b) = False"
| "less_eq_f64 PInf PInf = True"

definition less_f64 :: "f64 \<Rightarrow> f64 \<Rightarrow> bool" where
  "less_f64 x y \<longleftrightarrow> x \<le> y \<and> \<not> y \<le> x"

instance
proof
  fix x y z :: f64
  show "x < y \<longleftrightarrow> x \<le> y \<and> \<not> y \<le> x" by (rule less_f64_def)
  show "x \<le> x" by (cases x) simp_all
  show "x \<le> y \<Longrightarrow> y \<le> z \<Longrightarrow> x \<le> z" by (cases x; cases y; cases z) simp_all
  show "x \<le> y \<Longrightarrow> y \<le> x \<Longrightarrow> x = y" by (cases x; cases y) simp_all
  show "x \<le> y \<or> y \<le> x" by (cases x; cases y) auto
qed

end

text \<open>
  Rounding of an exact value to the nearest double, ties to the even significand:
  53 significant bits, least exponent of a unit in the last place \<open>-1074\<close>, and an
  infinity beyond the largest double. \<open>blen\<close> is the number of binary digits and
  \<open>ilog2 x\<close> the exponent \<open>e\<close> with \<open>2^e \<le> |x| < 2^(e+1)\<close>.
\<close>

definition round_half_even :: "rat \<Rightarrow> int" where
  "round_half_even y =
     (let f = \<lfloor>y\<rfloor>; d = y - of_int f in
      if d < 1 / 2 then f
      else if 1 / 2 < d then f + 1
      else if even f then f else f + 1)"

fun blen :: "nat \<Rightarrow> nat" where
  "blen n = (if n = 0 then 0 else Suc (blen (n div 2)))"

declare blen.simps [simp del]

definition ilog2 :: "rat \<Rightarrow> int" where
  "ilog2 x =
     (let a = \<bar>x\<bar> in
      if 1 \<le> a then int (blen (nat \<lfloor>a\<rfloor>)) - 1
      else
        let k = int (blen (nat \<lfloor>1 / a\<rfloor>)) - 1 in
        if a = 2 powi (- k) then - k else - k - 1)"

definition fl_finite :: "rat \<Rightarrow> rat" where
  "fl_finite x =
     (if x = 0 then 0
      else
        let u = 2 powi (max (ilog2 x - 52) (- 1074)) in
        of_int (round_half_even (x / u)) * u)"

definition max_double :: rat where
  "max_double = (2 ^ 53 - 1) * 2 ^ 971"

definition fl :: "rat \<Rightarrow> f64" where
  "fl x =
     (let y = fl_finite x in
      if max_double < y then PInf else if y < - max_double then NInf else Fin y)"

text \<open>
  The operations of the program on floats: product, sum, quotient by a positive
  number (the program divides by 100 and by a positive count only) and rounding to an
  integer (\<open>rint\<close>, ties to even).
\<close>

fun sign :: "f64 \<Rightarrow> int" where
  "sign NInf = - 1"
| "sign (Fin a) = (if a < 0 then - 1 else if a = 0 then 0 else 1)"
| "sign PInf = 1"

fun fmul :: "f64 option \<Rightarrow> f64 option \<Rightarrow> f64 option" where
  "fmul None y = None"
| "fmul (Some x) None = None"
| "fmul (Some (Fin a)) (Some (Fin b)) = Some (fl (a * b))"
| "fmul (Some x) (Some y) =
     (if sign x * sign y = 0 then None
      else if 0 < sign x * sign y then Some PInf else Some NInf)"

fun fadd :: "f64 option \<Rightarrow> f64 option \<Rightarrow> f64 option" where
  "fadd None y = None"
| "fadd (Some x) None = None"
| "fadd (Some (Fin a)) (Some (Fin b)) = Some (fl (a + b))"
| "fadd (Some (Fin a)) (Some y) = Some y"
| "fadd (Some x) (Some (Fin b)) = Some x"
| "fadd (Some x) (Some y) = (if x = y then Some x else None)"

fun fdiv_pos :: "f64 option \<Rightarrow> rat \<Rightarrow> f64 option" where
  "fdiv_pos None d = None"
| "fdiv_pos (Some (Fin a)) d = Some (fl (a / d))"
| "fdiv_pos (Some x) d = Some x"

fun rint :: "f64 option \<Rightarrow> f64 option" where
  "rint (Some (Fin a)) = Some (Fin (of_int (round_half_even a)))"
| "rint x = x"

text \<open>
  Python's \<open>round(x, 2)\<close> on a float gives the double nearest to the decimal with two
  places that is nearest to the exact value of \<open>x\<close> (ties to even). NumPy's, which
  \<open>round\<close> calls for a \<open>numpy.float64\<close>, multiplies by 100, rounds to an integer and
  divides by 100, each step in floating point.
\<close>

fun py_round :: "f64 option \<Rightarrow> f64 option" where
  "py_round (Some (Fin a)) = Some (fl (of_int (round_half_even (a * 100)) / 100))"
| "py_round x = x"

definition np_round :: "f64 option \<Rightarrow> f64 option" where
  "np_round x = fdiv_pos (rint (fmul x (Some (Fin 100)))) 100"

text \<open>
  A number of the program is a Python \<open>int\<close>, a Python \<open>float\<close> or a
  \<open>numpy.float64\<close>; the kind decides which rounding \<open>round\<close> applies, and a product
  with a \<open>numpy.float64\<close> is one again.
\<close>

datatype number = PyInt int | PyFloat "f64 option" | NpFloat "f64 option"

fun val :: "number \<Rightarrow> f64 option" where
  "val (PyInt i) = Some (fl (of_int i))"
| "val (PyFloat x) = x"
| "val (NpFloat x) = x"

fun round2 :: "number \<Rightarrow> number" where
  "round2 (PyInt i) = PyInt i"
| "round2 (PyFloat x) = PyFloat (py_round x)"
| "round2 (NpFloat x) = NpFloat (np_round x)"

fun num_mul :: "number \<Rightarrow> number \<Rightarrow> number" where
  "num_mul (PyInt i) (PyInt j) = PyInt (i * j)"
| "num_mul (NpFloat x) n = NpFloat (fmul x (val n))"
| "num_mul m (NpFloat y) = NpFloat (fmul (val m) y)"
| "num_mul (PyFloat x) n = PyFloat (fmul x (val n))"
| "num_mul m (PyFloat y) = PyFloat (fmul (val m) y)"

text \<open>
  True division: of two Python integers, the second positive, which is correctly
  rounded; and of a number by 100.
\<close>

definition int_div :: "nat \<Rightarrow> nat \<Rightarrow> number" where
  "int_div k n = PyFloat (Some (fl (of_nat k / of_nat n)))"

fun div_100 :: "number \<Rightarrow> number" where
  "div_100 (PyInt i) = PyFloat (Some (fl (of_int i / 100)))"
| "div_100 (PyFloat x) = PyFloat (fdiv_pos x 100)"
| "div_100 (NpFloat x) = NpFloat (fdiv_pos x 100)"

text \<open>
  pandas computes the mean of a series as the sum of its values divided by their
  number, both in float64. The order in which the sum adds the values depends on the
  version and the build of NumPy, so the sum is a parameter of the metrics. Added from
  left to right, as NumPy does for fewer than eight values, it is \<open>sum_seq\<close>.
\<close>

definition series_mean :: "(f64 list \<Rightarrow> f64 option) \<Rightarrow> f64 list \<Rightarrow> f64 option" where
  "series_mean series_sum xs = fdiv_pos (series_sum xs) (of_nat (length xs))"

definition sum_seq :: "f64 list \<Rightarrow> f64 option" where
  "sum_seq xs = foldl fadd (Some (Fin 0)) (map Some xs)"

section \<open>The base table\<close>

text \<open>
  One row of the combined table after \<open>load_data\<close> has cleaned it. A missing or
  unparsable cell is NaN (NaT for a date) in pandas and \<open>None\<close> here. A date is its
  day number, so that the order of timestamps is the order of integers.
\<close>

record row =
  name :: "string option"
  nights :: int
  persons :: int
  price :: "f64 option"
  review_score :: "f64 option"
  distance :: "f64 option"
  price_date_dt :: "int option"
  weekday :: "string option"
  scrape_time :: string

text \<open>
  A row as \<open>pd.read_csv\<close> delivers it, before cleaning: the numeric and date columns
  still hold whatever the file had. The cell type and the pandas functions that read
  a file and coerce a cell are library code, taken as parameters.
\<close>

record 'c raw_row =
  raw_name :: "string option"
  raw_nights :: int
  raw_persons :: int
  raw_price :: 'c
  raw_review_score :: 'c
  raw_distance :: 'c
  raw_price_date :: 'c

record 'c pandas =
  read_csv :: "string \<Rightarrow> string + 'c raw_row list"
  to_numeric :: "'c \<Rightarrow> f64 option"
  to_datetime :: "'c \<Rightarrow> int option"
  day_name :: "int \<Rightarrow> string"

section \<open>Loading\<close>

text \<open>
  \<^verbatim>\<open>
  for file in files:
      try:
          df = pd.read_csv(file)
          df['scrape_time'] = get_scrape_time(file)
          dfs.append(df)
      except Exception as e:
          st.error(f"Error loading {file}: {e}")
  \<close>
  The loop returns the frames read, each row paired with its scrape time, and the
  messages shown for the files that failed.
\<close>

fun read_files :: "'c pandas \<Rightarrow> string list \<Rightarrow> ('c raw_row \<times> string) list list \<times> string list" where
  "read_files pd [] = ([], [])"
| "read_files pd (file # files) =
     (let (dfs, errs) = read_files pd files in
      case read_csv pd file of
        Inr df \<Rightarrow> (map (\<lambda>r. (r, get_scrape_time file)) df # dfs, errs)
      | Inl e \<Rightarrow> (dfs, (''Error loading '' @ file @ '': '' @ e) # errs))"

definition clean_row :: "'c pandas \<Rightarrow> 'c raw_row \<times> string \<Rightarrow> row" where
  "clean_row pd rs =
     (let r = fst rs; d = to_datetime pd (raw_price_date r) in
      \<lparr> name = raw_name r,
        nights = raw_nights r,
        persons = raw_persons r,
        price = to_numeric pd (raw_price r),
        review_score = to_numeric pd (raw_review_score r),
        distance = to_numeric pd (raw_distance r),
        price_date_dt = d,
        weekday = map_option (day_name pd) d,
        scrape_time = snd rs \<rparr>)"

definition load_data :: "'c pandas \<Rightarrow> string list \<Rightarrow> row list \<times> string list" where
  "load_data pd files =
     (let (dfs, errs) = read_files pd files in
      if dfs \<noteq> [] then (map (clean_row pd) (concat dfs), errs) else ([], errs))"

section \<open>Filtering\<close>

text \<open>
  The sidebar's selections. \<open>st.date_input\<close> returns a tuple that holds as many dates
  as the user has picked so far, so the date range is a list.
\<close>

record selection =
  selected_hotels :: "string list"
  selected_nights :: int
  selected_persons :: int
  price_range :: "f64 \<times> f64"
  date_range :: "int list"

text \<open>Comparisons with NaN and NaT are false; \<open>isin\<close> is false on NaN.\<close>

definition isin :: "string option \<Rightarrow> string list \<Rightarrow> bool" where
  "isin v xs = (case v of None \<Rightarrow> False | Some s \<Rightarrow> s \<in> set xs)"

definition ge :: "('a::linorder) option \<Rightarrow> 'a \<Rightarrow> bool" where
  "ge v b = (case v of None \<Rightarrow> False | Some x \<Rightarrow> b \<le> x)"

definition le :: "('a::linorder) option \<Rightarrow> 'a \<Rightarrow> bool" where
  "le v b = (case v of None \<Rightarrow> False | Some x \<Rightarrow> x \<le> b)"

definition eq_na :: "'a option \<Rightarrow> 'a option \<Rightarrow> bool" where
  "eq_na v w = (case v of None \<Rightarrow> False | Some x \<Rightarrow> w = Some x)"

text \<open>
  \<^verbatim>\<open>
  filtered_data = data.copy()
  if selected_hotels:
      filtered_data = filtered_data[filtered_data['name'].isin(selected_hotels)]
  filtered_data = filtered_data[
      (filtered_data['nights'] == selected_nights) &
      (filtered_data['persons'] == selected_persons)]
  filtered_data = filtered_data[
      (filtered_data['price'] >= price_range[0]) &
      (filtered_data['price'] <= price_range[1])]
  if len(date_range) == 2:
      start_date, end_date = date_range
      filtered_data = filtered_data[
          (filtered_data['price_date_dt'] >= pd.Timestamp(start_date)) &
          (filtered_data['price_date_dt'] <= pd.Timestamp(end_date))]
  \<close>
\<close>

definition filter_hotels :: "string list \<Rightarrow> row list \<Rightarrow> row list" where
  "filter_hotels sel df = (if sel \<noteq> [] then filter (\<lambda>r. isin (name r) sel) df else df)"

definition filter_stay :: "int \<Rightarrow> int \<Rightarrow> row list \<Rightarrow> row list" where
  "filter_stay n p df = filter (\<lambda>r. nights r = n \<and> persons r = p) df"

definition filter_price :: "f64 \<times> f64 \<Rightarrow> row list \<Rightarrow> row list" where
  "filter_price pr df = filter (\<lambda>r. ge (price r) (fst pr) \<and> le (price r) (snd pr)) df"

definition filter_dates :: "int list \<Rightarrow> row list \<Rightarrow> row list" where
  "filter_dates dr df =
     (case dr of
        [start_date, end_date] \<Rightarrow>
          filter (\<lambda>r. ge (price_date_dt r) start_date \<and> le (price_date_dt r) end_date) df
      | _ \<Rightarrow> df)"

text \<open>The value of \<open>filtered_data\<close> after the price step, and the final one.\<close>

definition filtered_by_price :: "row list \<Rightarrow> selection \<Rightarrow> row list" where
  "filtered_by_price data sel =
     filter_price (price_range sel)
       (filter_stay (selected_nights sel) (selected_persons sel)
         (filter_hotels (selected_hotels sel) data))"

definition filtered_data :: "row list \<Rightarrow> selection \<Rightarrow> row list" where
  "filtered_data data sel = filter_dates (date_range sel) (filtered_by_price data sel)"

text \<open>
  What the widgets hold before the user touches them: no hotel, the first of the
  sorted nights and persons options, the whole span of the prices (or 0 to 1000 when
  no row has a price) and the whole span of the dates. With an empty table or without
  any date the widgets have nothing to show, and there is no default.
\<close>

definition default_selection :: "row list \<Rightarrow> selection option" where
  "default_selection data =
     (case (sort (remdups (map nights data)), sort (remdups (map persons data)),
            List.map_filter (\<lambda>r. price_date_dt r) data) of
        (n # _, p # _, d # ds) \<Rightarrow>
          Some \<lparr> selected_hotels = [],
                 selected_nights = n,
                 selected_persons = p,
                 price_range =
                   (case List.map_filter (\<lambda>r. price r) data of
                      [] \<Rightarrow> (Fin 0, Fin 1000)
                    | x # xs \<Rightarrow> (fold min xs x, fold max xs x)),
                 date_range = [fold min ds d, fold max ds d] \<rparr>
      | _ \<Rightarrow> None)"

section \<open>Metrics\<close>

fun dropna :: "'a option list \<Rightarrow> 'a list" where
  "dropna [] = []"
| "dropna (None # xs) = dropna xs"
| "dropna (Some x # xs) = x # dropna xs"

text \<open>\<open>nunique\<close> counts the distinct values that are not NaN.\<close>

definition nunique :: "'a option list \<Rightarrow> nat" where
  "nunique xs = length (remdups (dropna xs))"

text \<open>
  \<^verbatim>\<open>
  def safe_mean(series):
      clean_series = series.dropna()
      return round(clean_series.mean(), 2) if not clean_series.empty else 0

  def calculate_occupancy_rate(df):
      if df.empty:
          return 0
      total_hotels = df['name'].nunique()
      hotels_with_prices = df.dropna(subset=['price'])['name'].nunique()
      return round((hotels_with_prices / total_hotels) * 100, 2) if total_hotels > 0 else 0
  \<close>
  The mean of a series is a \<open>numpy.float64\<close>, the two counts are Python integers, and
  the default \<open>0\<close> is a Python integer.
\<close>

definition safe_mean :: "(f64 list \<Rightarrow> f64 option) \<Rightarrow> f64 option list \<Rightarrow> number" where
  "safe_mean series_sum series =
     (let clean_series = dropna series in
      if clean_series \<noteq> [] then round2 (NpFloat (series_mean series_sum clean_series)) else PyInt 0)"

definition calculate_occupancy_rate :: "row list \<Rightarrow> number" where
  "calculate_occupancy_rate df =
     (if df = [] then PyInt 0
      else
        let total_hotels = nunique (map name df);
            hotels_with_prices = nunique (map name (filter (\<lambda>r. price r \<noteq> None) df))
        in if 0 < total_hotels
           then round2 (num_mul (int_div hotels_with_prices total_hotels) (PyInt 100))
           else PyInt 0)"

text \<open>
  The four figures at the top of the page:
  \<^verbatim>\<open>
  avg_review_score = safe_mean(filtered_data['review_score'])
  adr = safe_mean(filtered_data['price'])
  occupancy_rate = calculate_occupancy_rate(filtered_data)
  revpar = round(adr * (occupancy_rate / 100), 2)
  \<close>
\<close>

record kpis =
  avg_review_score :: number
  adr :: number
  occupancy_rate :: number
  revpar :: number

definition key_metrics :: "(f64 list \<Rightarrow> f64 option) \<Rightarrow> row list \<Rightarrow> kpis" where
  "key_metrics series_sum df =
     (let a = safe_mean series_sum (map review_score df);
          b = safe_mean series_sum (map price df);
          c = calculate_occupancy_rate df
      in \<lparr> avg_review_score = a, adr = b, occupancy_rate = c,
            revpar = round2 (num_mul b (div_100 c)) \<rparr>)"

section \<open>Series by date and scrape time\<close>

text \<open>
  \<open>Series.unique\<close> lists the distinct values in the order of their first appearance,
  NaT among them. The rows of a date and a scrape time are selected with \<open>==\<close>, which
  is false on NaT.
  \<^verbatim>\<open>
  for date in filtered_data['price_date_dt'].unique():
      for scrape_time in filtered_data['scrape_time'].unique():
          subset = filtered_data[
              (filtered_data['price_date_dt'] == date) &
              (filtered_data['scrape_time'] == scrape_time)]
          if not subset.empty:
              avg_price = safe_mean(subset['price'])
              occ_rate = calculate_occupancy_rate(subset)
              revpar_value = avg_price * (occ_rate / 100)
              revpar_data.append({... 'revpar': revpar_value})
  \<close>
  The occupancy loop is the same with \<open>occ_rate\<close> as the value.
\<close>

definition unique :: "'a list \<Rightarrow> 'a list" where
  "unique xs = rev (remdups (rev xs))"

definition subset_of :: "row list \<Rightarrow> int option \<Rightarrow> string \<Rightarrow> row list" where
  "subset_of df date st =
     filter (\<lambda>r. eq_na (price_date_dt r) date \<and> scrape_time r = st) df"

definition revpar_data ::
  "(f64 list \<Rightarrow> f64 option) \<Rightarrow> row list \<Rightarrow> (int option \<times> string \<times> number) list" where
  "revpar_data series_sum df =
     concat (map (\<lambda>date.
       concat (map (\<lambda>st.
         let subset = subset_of df date st in
         if subset \<noteq> [] then
           let avg_price = safe_mean series_sum (map price subset);
               occ_rate = calculate_occupancy_rate subset;
               revpar_value = num_mul avg_price (div_100 occ_rate)
           in [(date, st, revpar_value)]
         else [])
       (unique (map scrape_time df))))
     (unique (map price_date_dt df)))"

definition occupancy_data :: "row list \<Rightarrow> (int option \<times> string \<times> number) list" where
  "occupancy_data df =
     concat (map (\<lambda>date.
       concat (map (\<lambda>st.
         let subset = subset_of df date st in
         if subset \<noteq> [] then
           let occ_rate = calculate_occupancy_rate subset
           in [(date, st, occ_rate)]
         else [])
       (unique (map scrape_time df))))
     (unique (map price_date_dt df)))"

section \<open>The page\<close>

text \<open>
  One run of the script. With an empty table it shows the message and stops
  (\<open>st.stop()\<close>); otherwise it filters with what the user selected from the options
  the table offers, and shows the figures and, when rows remain, the charts.
\<close>

record charts =
  revpar_series :: "(int option \<times> string \<times> number) list"
  occupancy_series :: "(int option \<times> string \<times> number) list"

datatype page =
    Stopped "string list"
  | Dashboard "string list" "row list" kpis "charts option"

definition no_data_message :: string where
  "no_data_message = ''No data found. Please make sure CSV files are in the 'csv_files' folder.''"

definition app ::
  "'c pandas \<Rightarrow> (f64 list \<Rightarrow> f64 option) \<Rightarrow> string list \<Rightarrow> (row list \<Rightarrow> selection) \<Rightarrow> page" where
  "app pd series_sum files user =
     (let (data, errs) = load_data pd files in
      if data = [] then Stopped (errs @ [no_data_message])
      else
        let fd = filtered_data data (user data) in
        Dashboard errs fd (key_metrics series_sum fd)
          (if fd \<noteq> [] then
             Some \<lparr> revpar_series = revpar_data series_sum fd,
                    occupancy_series = occupancy_data fd \<rparr>
           else None))"

section \<open>Reading the claims\<close>

text \<open>
  The sets and predicates that the specification speaks of, written from its words, to
  compare the code with.
\<close>

definition distinct_hotels :: "row list \<Rightarrow> string set" where
  "distinct_hotels df = {h. \<exists>r \<in> set df. name r = Some h}"

definition hotels_with_price :: "row list \<Rightarrow> string set" where
  "hotels_with_price df = {h. \<exists>r \<in> set df. name r = Some h \<and> price r \<noteq> None}"

definition non_null :: "'a option list \<Rightarrow> 'a list" where
  "non_null xs = map the (filter (\<lambda>v. v \<noteq> None) xs)"

definition passes :: "selection \<Rightarrow> row \<Rightarrow> bool" where
  "passes sel r \<longleftrightarrow>
     (selected_hotels sel = [] \<or> (\<exists>h. name r = Some h \<and> h \<in> set (selected_hotels sel)))
   \<and> nights r = selected_nights sel
   \<and> persons r = selected_persons sel
   \<and> (\<exists>p. price r = Some p \<and> fst (price_range sel) \<le> p \<and> p \<le> snd (price_range sel))
   \<and> (length (date_range sel) = 2 \<longrightarrow>
        (\<exists>d. price_date_dt r = Some d \<and> date_range sel ! 0 \<le> d \<and> d \<le> date_range sel ! 1))"

definition series_cells :: "row list \<Rightarrow> (int option \<times> string) list" where
  "series_cells df =
     filter (\<lambda>(date, st). subset_of df date st \<noteq> [])
       (List.product (unique (map price_date_dt df)) (unique (map scrape_time df)))"

text \<open>
  RevPAR recomputed from the mean price and the share of priced hotels before either
  is rounded, which the dashboard does not do.
\<close>

definition revpar_from_unrounded :: "(f64 list \<Rightarrow> f64 option) \<Rightarrow> row list \<Rightarrow> number" where
  "revpar_from_unrounded series_sum df =
     round2 (num_mul (NpFloat (series_mean series_sum (dropna (map price df))))
       (div_100 (num_mul
          (int_div (nunique (map name (filter (\<lambda>r. price r \<noteq> None) df))) (nunique (map name df)))
          (PyInt 100))))"

section \<open>Example rows\<close>

text \<open>
  The day name of a day number counted from 1 January 1970, a Thursday, and a row for
  two persons with the given hotel, nights, price, review score, date and scrape time.
\<close>

definition weekday_of :: "int \<Rightarrow> string" where
  "weekday_of d =
     [''Monday'', ''Tuesday'', ''Wednesday'', ''Thursday'', ''Friday'', ''Saturday'', ''Sunday'']
       ! nat ((d + 3) mod 7)"

definition example_row ::
  "string option \<Rightarrow> int \<Rightarrow> f64 option \<Rightarrow> f64 option \<Rightarrow> int option \<Rightarrow> string \<Rightarrow> row" where
  "example_row h n p rv d st =
     \<lparr> name = h, nights = n, persons = 2, price = p, review_score = rv, distance = None,
       price_date_dt = d, weekday = map_option weekday_of d, scrape_time = st \<rparr>"

section \<open>Properties of the scrape-time inference\<close>

lemma starts_with_iff: "starts_with s p \<longleftrightarrow> (\<exists>post. s = p @ post)"
  by (induction s p rule: starts_with.induct) auto

lemma str_in_iff: "str_in p s \<longleftrightarrow> (\<exists>pre post. s = pre @ p @ post)"
proof (induction s)
  case Nil
  show ?case by (cases p) auto
next
  case (Cons c cs)
  show ?case
  proof
    assume "str_in p (c # cs)"
    then consider "starts_with (c # cs) p" | "str_in p cs" by auto
    then show "\<exists>pre post. c # cs = pre @ p @ post"
    proof cases
      case 1
      then obtain post where "c # cs = p @ post" by (auto simp: starts_with_iff)
      then have "c # cs = [] @ p @ post" by simp
      then show ?thesis by blast
    next
      case 2
      then obtain pre post where "cs = pre @ p @ post" using Cons.IH by auto
      then have "c # cs = (c # pre) @ p @ post" by simp
      then show ?thesis by blast
    qed
  next
    assume "\<exists>pre post. c # cs = pre @ p @ post"
    then obtain pre post where e: "c # cs = pre @ p @ post" by blast
    show "str_in p (c # cs)"
    proof (cases pre)
      case Nil
      with e have "starts_with (c # cs) p" by (auto simp: starts_with_iff)
      then show ?thesis by simp
    next
      case (Cons a pre')
      with e have "cs = pre' @ p @ post" by simp
      then have "str_in p cs" using Cons.IH by blast
      then show ?thesis by simp
    qed
  qed
qed

lemma basename_split:
  "\<exists>dir. p = dir @ basename p \<and> (dir = [] \<or> last dir = CHR ''/'')"
proof -
  let ?P = "\<lambda>c. c \<noteq> CHR ''/''"
  let ?d = "dropWhile ?P (rev p)"
  have "rev (takeWhile ?P (rev p) @ ?d) = p"
    by (simp only: takeWhile_dropWhile_id rev_rev_ident)
  then have split: "p = rev ?d @ basename p"
    by (simp only: rev_append basename_def)
  have "rev ?d = [] \<or> last (rev ?d) = CHR ''/''"
  proof (cases ?d)
    case Nil
    then show ?thesis by simp
  next
    case (Cons a as)
    then have "\<not> ?P a" by (simp add: dropWhile_eq_Cons_conv)
    with Cons show ?thesis by simp
  qed
  with split show ?thesis by (intro exI [of _ "rev ?d"] conjI)
qed

lemma basename_no_slash: "CHR ''/'' \<notin> set (basename p)"
proof
  assume "CHR ''/'' \<in> set (basename p)"
  then have "CHR ''/'' \<in> set (takeWhile (\<lambda>c. c \<noteq> CHR ''/'') (rev p))"
    by (simp add: basename_def)
  then show False by (auto dest: set_takeWhileD)
qed

text \<open>
  Claim C5. For every file name, the scrape time is Morning when the base name has the
  substring Mor, otherwise Evening when it has the substring Eve, otherwise Unknown
  (Mor is tested first), where the base name is the slash-free part of the path after
  its last slash; the result is one of the three labels.
\<close>

theorem scrape_time_by_substring:
  "get_scrape_time f =
     (if (\<exists>pre post. basename f = pre @ ''Mor'' @ post) then ''Morning''
      else if (\<exists>pre post. basename f = pre @ ''Eve'' @ post) then ''Evening''
      else ''Unknown'')
   \<and> get_scrape_time f \<in> {''Morning'', ''Evening'', ''Unknown''}
   \<and> (\<exists>dir. f = dir @ basename f \<and> (dir = [] \<or> last dir = CHR ''/''))
   \<and> CHR ''/'' \<notin> set (basename f)"
proof -
  have "get_scrape_time f =
     (if (\<exists>pre post. basename f = pre @ ''Mor'' @ post) then ''Morning''
      else if (\<exists>pre post. basename f = pre @ ''Eve'' @ post) then ''Evening''
      else ''Unknown'')"
    unfolding get_scrape_time_def Let_def str_in_iff by (rule refl)
  moreover have "get_scrape_time f \<in> {''Morning'', ''Evening'', ''Unknown''}"
    unfolding get_scrape_time_def Let_def by simp
  ultimately show ?thesis
    by (intro conjI) (assumption, assumption, rule basename_split, rule basename_no_slash)
qed

section \<open>Rounding\<close>

lemma rhe_floor_le: "\<lfloor>y\<rfloor> \<le> round_half_even y"
  by (simp add: round_half_even_def Let_def)

lemma rhe_le_floor_Suc: "round_half_even y \<le> \<lfloor>y\<rfloor> + 1"
  by (simp add: round_half_even_def Let_def)

lemma rhe_of_int: "round_half_even (of_int k) = k"
  by (simp add: round_half_even_def Let_def)

lemma rhe_ge: "of_int m \<le> y \<Longrightarrow> m \<le> round_half_even y"
proof -
  assume "of_int m \<le> y"
  then have "m \<le> \<lfloor>y\<rfloor>" by (simp add: le_floor_iff)
  then show ?thesis using rhe_floor_le [of y] by linarith
qed

lemma rhe_le:
  assumes "y \<le> of_int m"
  shows "round_half_even y \<le> m"
proof (cases "y = of_int \<lfloor>y\<rfloor>")
  case True
  then have "round_half_even y = \<lfloor>y\<rfloor>" by (metis rhe_of_int)
  moreover have "\<lfloor>y\<rfloor> \<le> m" using assms by (simp add: floor_le_iff)
  ultimately show ?thesis by simp
next
  case False
  then have "of_int \<lfloor>y\<rfloor> < y" by (auto simp: less_le)
  then have "of_int \<lfloor>y\<rfloor> < (of_int m :: rat)" using assms by simp
  then have "\<lfloor>y\<rfloor> < m" by simp
  then show ?thesis using rhe_le_floor_Suc [of y] by simp
qed

lemma rhe_zero_iff: "round_half_even y = 0 \<longleftrightarrow> - (1 / 2) \<le> y \<and> y \<le> 1 / 2"
proof
  assume z: "round_half_even y = 0"
  let ?f = "\<lfloor>y\<rfloor>"
  have fl: "of_int ?f \<le> y" "y < of_int ?f + 1" by linarith+
  consider "y - of_int ?f < 1 / 2" "?f = 0"
    | "1 / 2 < y - of_int ?f" "?f + 1 = 0"
    | "y - of_int ?f = 1 / 2" "even ?f" "?f = 0"
    | "y - of_int ?f = 1 / 2" "odd ?f" "?f + 1 = 0"
    using z unfolding round_half_even_def Let_def by (auto split: if_splits)
  then show "- (1 / 2) \<le> y \<and> y \<le> 1 / 2"
  proof cases
    case 1 then show ?thesis using fl by simp
  next
    case 2
    then have "?f = -1" by simp
    with 2 fl show ?thesis by simp
  next
    case 3 then show ?thesis by simp
  next
    case 4
    then have "?f = -1" by simp
    with 4 show ?thesis by simp
  qed
next
  assume b: "- (1 / 2) \<le> y \<and> y \<le> 1 / 2"
  show "round_half_even y = 0"
  proof (cases "0 \<le> y")
    case True
    then have f: "\<lfloor>y\<rfloor> = 0" using b by (simp add: floor_eq_iff)
    show ?thesis using b True unfolding round_half_even_def Let_def f by auto
  next
    case False
    then have f: "\<lfloor>y\<rfloor> = -1" using b by (simp add: floor_eq_iff)
    show ?thesis using b False unfolding round_half_even_def Let_def f by auto
  qed
qed

section \<open>Facts about rounding to a double\<close>

lemma blen_upper: "n < 2 ^ blen n"
proof (induction n rule: blen.induct)
  case (1 n)
  show ?case
  proof (cases "n = 0")
    case True
    then show ?thesis by (simp add: blen.simps)
  next
    case False
    then have "n div 2 < 2 ^ blen (n div 2)" by (rule "1.IH")
    then have "n < 2 * 2 ^ blen (n div 2)" by linarith
    with False show ?thesis by (simp add: blen.simps [of n])
  qed
qed

lemma blen_pos: "0 < n \<Longrightarrow> 0 < blen n"
  by (simp add: blen.simps [of n])

lemma blen_lower: "0 < n \<Longrightarrow> 2 ^ (blen n - 1) \<le> n"
proof (induction n rule: blen.induct)
  case (1 n)
  then have n: "n \<noteq> 0" by simp
  have b: "blen n - 1 = blen (n div 2)" using n by (simp add: blen.simps [of n])
  show ?case
  proof (cases "n div 2 = 0")
    case True
    then have "blen (n div 2) = 0" by (simp add: blen.simps)
    with b n show ?thesis by simp
  next
    case False
    then have pos: "0 < n div 2" by simp
    then have ih: "2 ^ (blen (n div 2) - 1) \<le> n div 2" using "1.IH" n by blast
    have "blen (n div 2) = Suc (blen (n div 2) - 1)" using blen_pos [OF pos] by simp
    then have "(2::nat) ^ blen (n div 2) = 2 * 2 ^ (blen (n div 2) - 1)"
      by (metis power_Suc)
    also have "\<dots> \<le> 2 * (n div 2)" using ih by simp
    also have "\<dots> \<le> n" by simp
    finally show ?thesis using b by simp
  qed
qed

lemma blen_le: "n < 2 ^ k \<Longrightarrow> blen n \<le> k"
proof (rule ccontr)
  assume lt: "n < 2 ^ k" and "\<not> blen n \<le> k"
  then have k: "k \<le> blen n - 1" by simp
  have "0 < n" using \<open>\<not> blen n \<le> k\<close> by (cases "n = 0") (simp_all add: blen.simps)
  then have "2 ^ (blen n - 1) \<le> n" by (rule blen_lower)
  moreover have "(2::nat) ^ k \<le> 2 ^ (blen n - 1)" using k by (simp add: power_increasing)
  ultimately show False using lt by linarith
qed


lemma powi_lt_exp: "(2::rat) powi a < 2 powi b \<Longrightarrow> a < b"
proof (rule ccontr)
  assume lt: "(2::rat) powi a < 2 powi b" and "\<not> a < b"
  then have "b \<le> a" by simp
  then have "(2::rat) powi b \<le> 2 powi a" by (rule power_int_increasing) simp
  with lt show False by simp
qed

lemma powi_neg_nat: "(2::rat) powi (- int m) = 1 / 2 ^ m"
  by (simp add: power_int_minus_divide)

lemma ilog2_bounds:
  assumes "x \<noteq> 0"
  shows "2 powi ilog2 x \<le> \<bar>x\<bar> \<and> \<bar>x\<bar> < 2 powi (ilog2 x + 1)"
proof (cases "1 \<le> \<bar>x\<bar>")
  case True
  let ?a = "\<bar>x\<bar>"
  let ?n = "nat \<lfloor>?a\<rfloor>"
  have fl1: "1 \<le> \<lfloor>?a\<rfloor>" using True by (simp add: le_floor_iff)
  then have npos: "0 < ?n" by simp
  obtain m where m: "blen ?n = Suc m" using blen_pos [OF npos] by (cases "blen ?n") simp_all
  have e: "ilog2 x = int m" using True m by (simp add: ilog2_def)
  have n_eq: "(of_nat ?n :: rat) = of_int \<lfloor>?a\<rfloor>" using fl1 by simp
  have "2 ^ m \<le> ?n" using blen_lower [OF npos] m by simp
  then have "(of_nat (2 ^ m) :: rat) \<le> of_nat ?n" by (simp only: of_nat_le_iff)
  then have "(2::rat) ^ m \<le> of_int \<lfloor>?a\<rfloor>" using n_eq by simp
  also have "\<dots> \<le> ?a" by (rule of_int_floor_le)
  finally have lo: "2 powi ilog2 x \<le> ?a" by (simp add: e)
  have "?n < 2 ^ Suc m" using blen_upper [of ?n] m by simp
  then have "?n + 1 \<le> 2 ^ Suc m" by simp
  then have "(of_nat (?n + 1) :: rat) \<le> of_nat (2 ^ Suc m)" by (simp only: of_nat_le_iff)
  then have le: "of_int \<lfloor>?a\<rfloor> + 1 \<le> (2::rat) ^ Suc m" using n_eq by simp
  have "?a < of_int \<lfloor>?a\<rfloor> + 1" by linarith
  then have "?a < 2 ^ Suc m" using le by linarith
  moreover have "(2::rat) powi (ilog2 x + 1) = 2 ^ Suc m"
  proof -
    have "ilog2 x + 1 = int (Suc m)" using e by simp
    then show ?thesis by (simp only: power_int_of_nat)
  qed
  ultimately have hi: "?a < 2 powi (ilog2 x + 1)" by simp
  from lo hi show ?thesis by simp
next
  case False
  let ?a = "\<bar>x\<bar>"
  let ?y = "1 / ?a"
  let ?n = "nat \<lfloor>?y\<rfloor>"
  have apos: "0 < ?a" using assms by simp
  have a1: "?a < 1" using False by simp
  have y1: "1 \<le> ?y" using apos a1 by (simp add: field_simps)
  then have fl1: "1 \<le> \<lfloor>?y\<rfloor>" by (simp only: le_floor_iff of_int_1)
  then have npos: "0 < ?n" by simp
  obtain m where m: "blen ?n = Suc m" using blen_pos [OF npos] by (cases "blen ?n") simp_all
  have n_eq: "(of_nat ?n :: rat) = of_int \<lfloor>?y\<rfloor>" using fl1 by simp
  have "2 ^ m \<le> ?n" using blen_lower [OF npos] m by simp
  then have "(of_nat (2 ^ m) :: rat) \<le> of_nat ?n" by (simp only: of_nat_le_iff)
  then have "(2::rat) ^ m \<le> of_int \<lfloor>?y\<rfloor>" using n_eq by simp
  also have "\<dots> \<le> ?y" by (rule of_int_floor_le)
  finally have "(2::rat) ^ m \<le> 1 / ?a" .
  then have up: "?a \<le> 1 / 2 ^ m" using apos by (simp add: field_simps)
  have "?n < 2 ^ Suc m" using blen_upper [of ?n] m by simp
  then have "?n + 1 \<le> 2 ^ Suc m" by simp
  then have "(of_nat (?n + 1) :: rat) \<le> of_nat (2 ^ Suc m)" by (simp only: of_nat_le_iff)
  then have le: "of_int \<lfloor>?y\<rfloor> + 1 \<le> (2::rat) ^ Suc m" using n_eq by simp
  have "?y < of_int \<lfloor>?y\<rfloor> + 1" by linarith
  then have "1 / ?a < 2 ^ Suc m" using le by linarith
  then have low: "1 / 2 ^ Suc m < ?a" using apos by (simp add: field_simps)
  have k: "int (blen ?n) - 1 = int m" using m by simp
  have p0: "(2::rat) powi (- int m) = 1 / 2 ^ m" by (rule powi_neg_nat)
  have p1: "(2::rat) powi (- int m - 1) = 1 / 2 ^ Suc m"
  proof -
    have "- int m - 1 = - int (Suc m)" by simp
    then show ?thesis by (simp only: powi_neg_nat)
  qed
  have p2: "(2::rat) powi (- int m + 1) = 2 / 2 ^ m"
    using power_int_add_1 [of "2::rat" "- int m"] by (simp add: p0)
  show ?thesis
  proof (cases "?a = 2 powi (- int m)")
    case True
    then have e: "ilog2 x = - int m" using False k by (simp add: ilog2_def Let_def)
    have "(1::rat) / 2 ^ m < 2 / 2 ^ m" by (rule divide_strict_right_mono) simp_all
    then have "?a < 2 / 2 ^ m" using True p0 by simp
    then show ?thesis using True unfolding e p2 by simp
  next
    case ne: False
    then have e: "ilog2 x = - int m - 1" using False k by (simp add: ilog2_def Let_def)
    have e1: "ilog2 x + 1 = - int m" using e by simp
    have "?a < 1 / 2 ^ m" using up ne p0 by simp
    then show ?thesis using low unfolding e1 p0 unfolding e p1 by simp
  qed
qed

lemma ilog2_unique:
  assumes "2 powi e \<le> \<bar>x\<bar>" and "\<bar>x\<bar> < 2 powi (e + 1)"
  shows "ilog2 x = e"
proof -
  have "(0::rat) < 2 powi e" by simp
  then have "0 < \<bar>x\<bar>" using assms(1) by linarith
  then have "x \<noteq> 0" by simp
  then have b: "2 powi ilog2 x \<le> \<bar>x\<bar>" "\<bar>x\<bar> < 2 powi (ilog2 x + 1)"
    using ilog2_bounds by blast+
  have "(2::rat) powi e < 2 powi (ilog2 x + 1)" using assms(1) b(2) by (rule le_less_trans)
  then have 1: "e < ilog2 x + 1" by (rule powi_lt_exp)
  have "(2::rat) powi ilog2 x < 2 powi (e + 1)" using b(1) assms(2) by (rule le_less_trans)
  then have 2: "ilog2 x < e + 1" by (rule powi_lt_exp)
  from 1 2 show ?thesis by simp
qed

lemma max_double_ge: "2 ^ 1023 \<le> max_double"
proof -
  have "(2::rat) ^ 1023 = 2 ^ 52 * 2 ^ 971" by (simp add: power_add [symmetric])
  also have "\<dots> \<le> (2 ^ 53 - 1) * 2 ^ 971" by (rule mult_right_mono) simp_all
  finally show ?thesis by (simp only: max_double_def)
qed

lemma fl_finite_eq:
  assumes "2 powi e \<le> \<bar>x\<bar>" and "\<bar>x\<bar> < 2 powi (e + 1)"
  shows "fl_finite x =
           of_int (round_half_even (x / 2 powi max (e - 52) (- 1074))) * 2 powi max (e - 52) (- 1074)"
proof -
  have "(0::rat) < 2 powi e" by simp
  then have "0 < \<bar>x\<bar>" using assms(1) by linarith
  then have "x \<noteq> 0" by simp
  moreover have "ilog2 x = e" using assms by (rule ilog2_unique)
  ultimately show ?thesis by (simp add: fl_finite_def Let_def)
qed

lemma fl_Fin: "\<bar>fl_finite x\<bar> \<le> max_double \<Longrightarrow> fl x = Fin (fl_finite x)"
  by (auto simp: fl_def Let_def)

lemma fl_zero: "fl 0 = Fin 0"
proof -
  have "(0::rat) \<le> 2 ^ 1023" by simp
  then have "(0::rat) \<le> max_double" using max_double_ge by (rule order_trans)
  then show ?thesis by (simp add: fl_def fl_finite_def)
qed

lemma fl_finite_nonneg: "0 \<le> x \<Longrightarrow> 0 \<le> fl_finite x"
proof (cases "x = 0")
  case True
  then show ?thesis by (simp add: fl_finite_def)
next
  case False
  assume "0 \<le> x"
  let ?u = "(2::rat) powi max (ilog2 x - 52) (- 1074)"
  have u: "0 < ?u" by simp
  then have "of_int 0 \<le> x / ?u" using \<open>0 \<le> x\<close> by simp
  then have "0 \<le> round_half_even (x / ?u)" by (rule rhe_ge)
  then have "0 \<le> of_int (round_half_even (x / ?u)) * ?u" using u by simp
  then show ?thesis using False by (simp add: fl_finite_def Let_def)
qed

lemma small_exponent:
  assumes "0 < x" and "x < 2 ^ 53"
  shows "\<exists>n. max (ilog2 x - 52) (- 1074) = - int n"
proof -
  have "x \<noteq> 0" using assms(1) by simp
  then have "2 powi ilog2 x \<le> \<bar>x\<bar>" using ilog2_bounds by blast
  then have "2 powi ilog2 x < (2::rat) ^ 53" using assms by simp
  then have "2 powi ilog2 x < (2::rat) powi 53" by simp
  then have "ilog2 x < 53" by (rule powi_lt_exp)
  then have "max (ilog2 x - 52) (- 1074) \<le> 0" by simp
  then show ?thesis by (metis nat_0_le neg_0_le_iff_le minus_minus)
qed

lemma fl_finite_le_nat:
  assumes "0 \<le> x" and "x \<le> of_nat M" and "M < 2 ^ 53"
  shows "fl_finite x \<le> of_nat M"
proof (cases "x = 0")
  case True
  then show ?thesis by (simp add: fl_finite_def)
next
  case False
  then have pos: "0 < x" using assms(1) by simp
  have "(of_nat M :: rat) < of_nat (2 ^ 53)" using assms(3) by (simp only: of_nat_less_iff)
  then have "x < 2 ^ 53" using assms(2) by simp
  with pos obtain n where j: "max (ilog2 x - 52) (- 1074) = - int n"
    using small_exponent by blast
  have u: "(2::rat) powi (- int n) = 1 / 2 ^ n" by (rule powi_neg_nat)
  have "x * 2 ^ n \<le> of_nat M * 2 ^ n" using assms(2) by simp
  then have "x / (1 / 2 ^ n) \<le> of_int (int (M * 2 ^ n))" by simp
  then have "round_half_even (x / (1 / 2 ^ n)) \<le> int (M * 2 ^ n)" by (rule rhe_le)
  then have "(of_int (round_half_even (x / (1 / 2 ^ n))) :: rat) \<le> of_int (int (M * 2 ^ n))"
    by (simp only: of_int_le_iff)
  then have "(of_int (round_half_even (x / (1 / 2 ^ n))) :: rat) \<le> of_nat M * 2 ^ n" by simp
  then have "of_int (round_half_even (x / (1 / 2 ^ n))) * (1 / 2 ^ n) \<le> (of_nat M :: rat)"
    by (simp add: field_simps)
  then show ?thesis using False by (simp add: fl_finite_def Let_def j u)
qed

lemma fl_finite_ge_nat:
  assumes "of_nat M \<le> x" and "x < 2 ^ 53"
  shows "of_nat M \<le> fl_finite x"
proof (cases "x = 0")
  case True
  then show ?thesis using assms(1) by (simp add: fl_finite_def)
next
  case False
  have "(0::rat) \<le> of_nat M" by simp
  then have "0 \<le> x" using assms(1) by (rule order_trans)
  then have pos: "0 < x" using False by simp
  with assms(2) obtain n where j: "max (ilog2 x - 52) (- 1074) = - int n"
    using small_exponent by blast
  have u: "(2::rat) powi (- int n) = 1 / 2 ^ n" by (rule powi_neg_nat)
  have "of_nat M * 2 ^ n \<le> x * 2 ^ n" using assms(1) by simp
  then have "of_int (int (M * 2 ^ n)) \<le> x / (1 / 2 ^ n)" by simp
  then have "int (M * 2 ^ n) \<le> round_half_even (x / (1 / 2 ^ n))" by (rule rhe_ge)
  then have "(of_int (int (M * 2 ^ n)) :: rat) \<le> of_int (round_half_even (x / (1 / 2 ^ n)))"
    by (simp only: of_int_le_iff)
  then have "of_nat M * 2 ^ n \<le> (of_int (round_half_even (x / (1 / 2 ^ n))) :: rat)" by simp
  then have "(of_nat M :: rat) \<le> of_int (round_half_even (x / (1 / 2 ^ n))) * (1 / 2 ^ n)"
    by (simp add: field_simps)
  then show ?thesis using False by (simp add: fl_finite_def Let_def j u)
qed

lemma fl_between:
  assumes "0 \<le> x" and "x \<le> of_nat M" and "M < 2 ^ 53"
  shows "\<exists>y. fl x = Fin y \<and> 0 \<le> y \<and> y \<le> of_nat M"
proof -
  have lo: "0 \<le> fl_finite x" using assms(1) by (rule fl_finite_nonneg)
  have hi: "fl_finite x \<le> of_nat M" using assms by (rule fl_finite_le_nat)
  have "(of_nat M :: rat) < of_nat (2 ^ 53)" using assms(3) by (simp only: of_nat_less_iff)
  then have "(of_nat M :: rat) \<le> 2 ^ 1023" by simp
  then have "of_nat M \<le> max_double" using max_double_ge by (rule order_trans)
  then have "\<bar>fl_finite x\<bar> \<le> max_double" using lo hi by simp
  then have "fl x = Fin (fl_finite x)" by (rule fl_Fin)
  with lo hi show ?thesis by blast
qed

lemma fl_nat: 
  assumes "M < 2 ^ 53"
  shows "fl (of_nat M) = Fin (of_nat M)"
proof -
  have lt: "(of_nat M :: rat) < of_nat (2 ^ 53)" using assms by (simp only: of_nat_less_iff)
  obtain y where y: "fl (of_nat M) = Fin y" "y \<le> of_nat M"
    using fl_between [of "of_nat M" M] assms by auto
  have "\<bar>fl_finite (of_nat M)\<bar> \<le> max_double \<Longrightarrow> fl (of_nat M) = Fin (fl_finite (of_nat M))"
    by (rule fl_Fin)
  have "(of_nat M :: rat) \<le> fl_finite (of_nat M)"
    by (rule fl_finite_ge_nat) (use lt in simp_all)
  moreover have "fl_finite (of_nat M) \<le> (of_nat M :: rat)"
    by (rule fl_finite_le_nat) (use assms in simp_all)
  ultimately have e: "fl_finite (of_nat M) = (of_nat M :: rat)" by simp
  have "(of_nat M :: rat) \<le> 2 ^ 1023" using lt by simp
  then have "(of_nat M :: rat) \<le> max_double" using max_double_ge by (rule order_trans)
  then have "\<bar>fl_finite (of_nat M)\<bar> \<le> max_double" unfolding e by simp
  then show ?thesis using e by (simp add: fl_Fin)
qed

lemma fl_eqI:
  assumes "2 powi e \<le> \<bar>x\<bar>" and "\<bar>x\<bar> < 2 powi (e + 1)" and "- 1022 \<le> e" and "e \<le> 1022"
    and "of_int (round_half_even (x / 2 powi (e - 52))) * 2 powi (e - 52) = y"
  shows "fl x = Fin y"
proof -
  let ?u = "(2::rat) powi (e - 52)"
  have m: "max (e - 52) (- 1074) = e - 52" using assms(3) by simp
  have ff: "fl_finite x = y" using fl_finite_eq [OF assms(1,2)] assms(5) by (simp only: m)
  have u: "0 < ?u" by simp
  have up: "?u * 2 ^ 53 = 2 powi (e + 1)"
  proof -
    have "?u * 2 powi 53 = 2 powi (e - 52 + 53)" by (rule power_int_add [symmetric]) simp
    moreover have "e - 52 + 53 = e + 1" by simp
    ultimately show ?thesis by simp
  qed
  have "\<bar>x\<bar> < ?u * 2 ^ 53" using assms(2) by (simp only: up)
  then have "\<bar>x\<bar> / ?u < 2 ^ 53" using u by (simp add: field_simps)
  moreover have "\<bar>x / ?u\<bar> = \<bar>x\<bar> / ?u" using u by (simp add: abs_divide)
  ultimately have ax: "\<bar>x / ?u\<bar> < 2 ^ 53" by (simp only:)
  have "x / ?u \<le> 2 ^ 53" using ax by linarith
  then have h1: "x / ?u \<le> of_int (2 ^ 53)" by simp
  have "- (2 ^ 53) \<le> x / ?u" using ax by linarith
  then have h2: "of_int (- (2 ^ 53)) \<le> x / ?u" by simp
  have "round_half_even (x / ?u) \<le> 2 ^ 53" using h1 by (rule rhe_le)
  moreover have "- (2 ^ 53) \<le> round_half_even (x / ?u)" using h2 by (rule rhe_ge)
  ultimately have "\<bar>round_half_even (x / ?u)\<bar> \<le> 2 ^ 53" by linarith
  then have "\<bar>(of_int (round_half_even (x / ?u)) :: rat)\<bar> \<le> of_int (2 ^ 53)"
    by (simp only: of_int_abs [symmetric] of_int_le_iff)
  then have "\<bar>(of_int (round_half_even (x / ?u)) :: rat)\<bar> \<le> 2 ^ 53" by simp
  then have "\<bar>(of_int (round_half_even (x / ?u)) :: rat)\<bar> * ?u \<le> 2 ^ 53 * ?u"
    by (rule mult_right_mono) (rule less_imp_le [OF u])
  moreover have "\<bar>y\<bar> = \<bar>(of_int (round_half_even (x / ?u)) :: rat)\<bar> * ?u"
  proof -
    have "\<bar>y\<bar> = \<bar>(of_int (round_half_even (x / ?u)) :: rat)\<bar> * \<bar>?u\<bar>"
      unfolding assms(5) [symmetric] by (rule abs_mult)
    moreover have "\<bar>?u\<bar> = ?u" using u by simp
    ultimately show ?thesis by (simp only:)
  qed
  moreover have "2 ^ 53 * ?u = 2 powi (e + 1)" using up by (simp only: mult.commute)
  ultimately have "\<bar>y\<bar> \<le> 2 powi (e + 1)" by (simp only:)
  also have "\<dots> \<le> 2 powi 1023" by (rule power_int_increasing) (use assms(4) in simp_all)
  also have "\<dots> = 2 ^ 1023" by simp
  finally have "\<bar>y\<bar> \<le> max_double" using max_double_ge by (rule order_trans)
  then show ?thesis using ff by (simp add: fl_Fin)
qed

lemma rhe_quotient:
  assumes "0 < q"
  shows "round_half_even (of_int p / of_int q) =
           (if 2 * (p mod q) < q then p div q
            else if q < 2 * (p mod q) then p div q + 1
            else if even (p div q) then p div q else p div q + 1)"
proof -
  let ?y = "of_int p / of_int q :: rat"
  have f: "\<lfloor>?y\<rfloor> = p div q" by (rule floor_divide_of_int_eq)
  have qpos: "(0::rat) < of_int q" using assms by simp
  have "(of_int p :: rat) = of_int (p div q * q + p mod q)" by simp
  then have "(of_int p :: rat) = of_int (p div q) * of_int q + of_int (p mod q)"
    by (simp only: of_int_add of_int_mult)
  then have d: "?y - of_int (p div q) = of_int (p mod q) / of_int q"
    using qpos by (simp add: field_simps)
  have lt: "of_int (p mod q) / (of_int q :: rat) < 1 / 2 \<longleftrightarrow> 2 * (p mod q) < q"
  proof -
    have "of_int (p mod q) / (of_int q :: rat) < 1 / 2 \<longleftrightarrow>
          (of_int (2 * (p mod q)) :: rat) < of_int q"
      using qpos by (simp add: field_simps)
    then show ?thesis by (simp only: of_int_less_iff)
  qed
  have gt: "1 / 2 < of_int (p mod q) / (of_int q :: rat) \<longleftrightarrow> q < 2 * (p mod q)"
  proof -
    have "1 / 2 < of_int (p mod q) / (of_int q :: rat) \<longleftrightarrow>
          (of_int q :: rat) < of_int (2 * (p mod q))"
      using qpos by (simp add: field_simps)
    then show ?thesis by (simp only: of_int_less_iff)
  qed
  show ?thesis unfolding round_half_even_def Let_def f d lt gt by (rule refl)
qed

lemma rhe_numeral_quotient:
  "round_half_even (numeral a / numeral b) =
     (if 2 * (numeral a mod numeral b) < (numeral b :: int) then numeral a div numeral b
      else if (numeral b :: int) < 2 * (numeral a mod numeral b) then numeral a div numeral b + 1
      else if even (numeral a div numeral b :: int) then numeral a div numeral b
      else numeral a div numeral b + 1)"
  using rhe_quotient [of "numeral b" "numeral a"] by simp

lemma rhe_numeral: "round_half_even (numeral a) = numeral a"
  using rhe_of_int [of "numeral a"] by simp

section \<open>Counting\<close>

lemma set_dropna: "set (dropna xs) = {x. Some x \<in> set xs}"
proof (induction xs)
  case Nil
  show ?case by simp
next
  case (Cons v xs)
  then show ?case by (cases v) auto
qed

lemma dropna_non_null: "dropna xs = non_null xs"
proof (induction xs)
  case Nil
  show ?case by (simp add: non_null_def)
next
  case (Cons v xs)
  then show ?case by (cases v) (simp_all add: non_null_def)
qed

lemma dropna_empty_iff: "dropna xs = [] \<longleftrightarrow> (\<forall>v \<in> set xs. v = None)"
proof (induction xs)
  case Nil
  show ?case by simp
next
  case (Cons v xs)
  then show ?case by (cases v) auto
qed

lemma nunique_card: "nunique xs = card {x. Some x \<in> set xs}"
  by (simp add: nunique_def length_remdups_card_conv set_dropna)

lemma nunique_names: "nunique (map name df) = card (distinct_hotels df)"
proof -
  have "{x. Some x \<in> set (map name df)} = distinct_hotels df"
    by (force simp: distinct_hotels_def intro: rev_image_eqI)
  then show ?thesis by (simp add: nunique_card)
qed

lemma nunique_priced_names:
  "nunique (map name (filter (\<lambda>r. price r \<noteq> None) df)) = card (hotels_with_price df)"
proof -
  have "{x. Some x \<in> set (map name (filter (\<lambda>r. price r \<noteq> None) df))} = hotels_with_price df"
    by (force simp: hotels_with_price_def intro: rev_image_eqI)
  then show ?thesis by (simp add: nunique_card)
qed

lemma finite_distinct_hotels: "finite (distinct_hotels df)"
proof -
  have "distinct_hotels df \<subseteq> the ` set (map name df)"
    by (force simp: distinct_hotels_def)
  then show ?thesis by (rule finite_subset) simp
qed

lemma priced_le_total: "card (hotels_with_price df) \<le> card (distinct_hotels df)"
proof (rule card_mono)
  show "finite (distinct_hotels df)" by (rule finite_distinct_hotels)
  show "hotels_with_price df \<subseteq> distinct_hotels df"
    by (auto simp: hotels_with_price_def distinct_hotels_def)
qed

lemma no_rows_no_hotels: "distinct_hotels [] = {}"
  by (simp add: distinct_hotels_def)

section \<open>Evaluating floats\<close>

lemma fl_numeral: "(numeral n :: nat) < 2 ^ 53 \<Longrightarrow> fl (numeral n) = Fin (numeral n)"
  using fl_nat [of "numeral n"] by simp

lemma fl_one: "fl 1 = Fin 1"
  using fl_nat [of 1] by simp

lemma rhe_zero: "round_half_even 0 = 0"
  using rhe_of_int [of 0] by simp

lemma py_round_between:
  assumes "0 \<le> z" and "z \<le> 100"
  shows "\<exists>w. py_round (Some (Fin z)) = Some (Fin w) \<and> 0 \<le> w \<and> w \<le> 100"
proof -
  let ?r = "round_half_even (z * 100)"
  have "of_int 0 \<le> z * 100" using assms(1) by simp
  then have lo: "0 \<le> ?r" by (rule rhe_ge)
  have "z * 100 \<le> of_int 10000" using assms(2) by simp
  then have hi: "?r \<le> 10000" by (rule rhe_le)
  have "(of_int 0 :: rat) \<le> of_int ?r" using lo by (simp only: of_int_le_iff)
  then have a: "0 \<le> (of_int ?r :: rat) / 100" by simp
  have "(of_int ?r :: rat) \<le> of_int 10000" using hi by (simp only: of_int_le_iff)
  then have b: "(of_int ?r :: rat) / 100 \<le> of_nat 100" by simp
  obtain w where "fl (of_int ?r / 100) = Fin w" "0 \<le> w" "w \<le> of_nat 100"
    using fl_between [OF a b] by auto
  then show ?thesis by simp
qed

lemma times_100_between:
  assumes "0 \<le> y" and "y \<le> 1"
  shows "\<exists>z. fmul (Some (Fin y)) (Some (Fin 100)) = Some (Fin z) \<and> 0 \<le> z \<and> z \<le> 100"
proof -
  have a: "0 \<le> y * 100" using assms(1) by simp
  have b: "y * 100 \<le> of_nat 100" using assms(2) by simp
  obtain z where "fl (y * 100) = Fin z" "0 \<le> z" "z \<le> of_nat 100"
    using fl_between [OF a b] by auto
  then show ?thesis by simp
qed

lemma ratio_between:
  assumes "k \<le> n" and "0 < n"
  shows "\<exists>y. fl (of_nat k / of_nat n) = Fin y \<and> 0 \<le> y \<and> y \<le> 1"
proof -
  have a: "(0::rat) \<le> of_nat k / of_nat n" by simp
  have "(of_nat k :: rat) \<le> of_nat n" using assms(1) by (simp only: of_nat_le_iff)
  then have b: "(of_nat k :: rat) / of_nat n \<le> of_nat 1" using assms(2) by (simp add: field_simps)
  obtain y where "fl (of_nat k / of_nat n) = Fin y" "0 \<le> y" "y \<le> of_nat 1"
    using fl_between [OF a b] by auto
  then show ?thesis by simp
qed

lemma val_hundred: "val (PyInt 100) = Some (Fin 100)"
  by (simp add: fl_numeral)

lemma val_zero: "val (PyInt 0) = Some (Fin 0)"
  by (simp add: fl_zero)

lemma occupancy_unfold:
  "val (calculate_occupancy_rate df) =
     (if card (distinct_hotels df) = 0 then Some (Fin 0)
      else py_round (fmul (Some (fl (of_nat (card (hotels_with_price df))
                                     / of_nat (card (distinct_hotels df)))))
                          (Some (Fin 100))))"
proof (cases "df = []")
  case True
  then show ?thesis by (simp add: calculate_occupancy_rate_def no_rows_no_hotels fl_zero)
next
  case False
  then show ?thesis
    by (simp only: calculate_occupancy_rate_def Let_def nunique_priced_names)
      (simp add: nunique_names int_div_def fl_zero fl_numeral)
qed

lemma occupancy_none_priced:
  assumes "card (hotels_with_price df) = 0"
  shows "val (calculate_occupancy_rate df) = Some (Fin 0)"
proof -
  have "round_half_even 0 = 0" using rhe_of_int [of 0] by simp
  then show ?thesis using assms by (simp add: occupancy_unfold fl_zero)
qed

section \<open>Occupancy rate\<close>

text \<open>
  Claim C1, as the code has it. For every list of rows the occupancy rate is the number
  of distinct hotel names with at least one priced row, divided by the number of
  distinct hotel names, times 100, rounded to two decimals (the division, the product
  and the rounding being those of Python floats), and 0 when there is no hotel name;
  it is a number between 0 and 100; and it is 0 when there is no hotel name.
\<close>

theorem occupancy_rate_formula:
  "val (calculate_occupancy_rate df) =
     (if card (distinct_hotels df) = 0 then Some (Fin 0)
      else py_round (fmul (Some (fl (of_nat (card (hotels_with_price df))
                                     / of_nat (card (distinct_hotels df)))))
                          (Some (Fin 100))))
   \<and> (\<exists>v. val (calculate_occupancy_rate df) = Some (Fin v) \<and> 0 \<le> v \<and> v \<le> 100)
   \<and> (card (distinct_hotels df) = 0 \<longrightarrow> val (calculate_occupancy_rate df) = Some (Fin 0))"
proof (intro conjI)
  show "val (calculate_occupancy_rate df) =
     (if card (distinct_hotels df) = 0 then Some (Fin 0)
      else py_round (fmul (Some (fl (of_nat (card (hotels_with_price df))
                                     / of_nat (card (distinct_hotels df)))))
                          (Some (Fin 100))))"
    by (rule occupancy_unfold)
  show "card (distinct_hotels df) = 0 \<longrightarrow> val (calculate_occupancy_rate df) = Some (Fin 0)"
    by (simp add: occupancy_unfold)
  show "\<exists>v. val (calculate_occupancy_rate df) = Some (Fin v) \<and> 0 \<le> v \<and> v \<le> 100"
  proof (cases "card (distinct_hotels df) = 0")
    case True
    then have "val (calculate_occupancy_rate df) = Some (Fin 0)" by (simp add: occupancy_unfold)
    then show ?thesis by simp
  next
    case False
    then have n: "0 < card (distinct_hotels df)" by simp
    obtain y where y: "fl (of_nat (card (hotels_with_price df)) / of_nat (card (distinct_hotels df)))
                       = Fin y" "0 \<le> y" "y \<le> 1"
      using ratio_between [OF priced_le_total n] by blast
    obtain z where z: "fmul (Some (Fin y)) (Some (Fin 100)) = Some (Fin z)" "0 \<le> z" "z \<le> 100"
      using times_100_between [OF y(2,3)] by blast
    obtain w where w: "py_round (Some (Fin z)) = Some (Fin w)" "0 \<le> w" "w \<le> 100"
      using py_round_between [OF z(2,3)] by blast
    have "val (calculate_occupancy_rate df) = Some (Fin w)"
      using False by (simp only: occupancy_unfold y(1) z(1) w(1) if_False)
    with w show ?thesis by blast
  qed
qed

lemmas float_eval = fl_zero fl_one fl_numeral rhe_zero rhe_numeral rhe_numeral_quotient

lemma half_1: "fl (1 / 2) = Fin (1 / 2)"
  by (rule fl_eqI [where e = "- 1"]) (simp_all add: rhe_numeral_quotient rhe_numeral)

text \<open>The theorem at the empty table, and the rate of one priced hotel out of two.\<close>

theorem occupancy_rate_formula_witness:
  "val (calculate_occupancy_rate []) = Some (Fin 0)
   \<and> val (calculate_occupancy_rate
       [example_row (Some ''A'') 1 (Some (Fin 100)) (Some (Fin 8)) (Some 3) ''Morning'',
        example_row (Some ''B'') 1 None None (Some 3) ''Morning'']) = Some (Fin 50)"
proof -
  have "card (distinct_hotels []) = 0" by (simp add: distinct_hotels_def)
  then have "val (calculate_occupancy_rate []) = Some (Fin 0)"
    using occupancy_rate_formula [of "[]"] by blast
  moreover have "val (calculate_occupancy_rate
       [example_row (Some ''A'') 1 (Some (Fin 100)) (Some (Fin 8)) (Some 3) ''Morning'',
        example_row (Some ''B'') 1 None None (Some 3) ''Morning'']) = Some (Fin 50)"
    by (simp add: calculate_occupancy_rate_def example_row_def nunique_def int_div_def
        float_eval half_1)
  ultimately show ?thesis by simp
qed

text \<open>
  Claim C1 as stated fails: one hotel whose only row has no price gives the rate 0
  although the table has one distinct hotel.
\<close>

theorem occupancy_zero_counterexample:
  "val (calculate_occupancy_rate
          [example_row (Some ''A'') 1 None (Some (Fin 8)) (Some 3) ''Morning'']) = Some (Fin 0)
   \<and> nunique (map name [example_row (Some ''A'') 1 None (Some (Fin 8)) (Some 3) ''Morning'']) = 1"
  by (simp add: calculate_occupancy_rate_def example_row_def nunique_def int_div_def float_eval)

text \<open>
  Two checks of the arithmetic against Python: 23 priced hotels of 160 give 14.37 and
  1 of 20000 gives 0.01.
\<close>

lemma ratio_1: "fl (23 / 160) = Fin (2589569785738035 / 18014398509481984)"
  by (rule fl_eqI [where e = "- 3"]) (simp_all add: rhe_numeral_quotient rhe_numeral)

lemma ratio_2: "fl (64739244643450875 / 4503599627370496) = Fin (8092405580431359 / 562949953421312)"
  by (rule fl_eqI [where e = 3]) (simp_all add: rhe_numeral_quotient rhe_numeral)

lemma ratio_3: "fl (1437 / 100) = Fin (8089590830664253 / 562949953421312)"
  by (rule fl_eqI [where e = 3]) (simp_all add: rhe_numeral_quotient rhe_numeral)

lemma ratio_4: "fl (1 / 20000) = Fin (7378697629483821 / 147573952589676412928)"
  by (rule fl_eqI [where e = "- 15"]) (simp_all add: rhe_numeral_quotient rhe_numeral)

lemma ratio_5: "fl (184467440737095525 / 36893488147419103232) = Fin (5764607523034235 / 1152921504606846976)"
  by (rule fl_eqI [where e = "- 8"]) (simp_all add: rhe_numeral_quotient rhe_numeral)

lemma ratio_6: "fl (1 / 100) = Fin (5764607523034235 / 576460752303423488)"
  by (rule fl_eqI [where e = "- 7"]) (simp_all add: rhe_numeral_quotient rhe_numeral)

lemma occupancy_23_of_160:
  "val (round2 (num_mul (int_div 23 160) (PyInt 100))) = Some (fl (1437 / 100))"
  by (simp add: int_div_def float_eval ratio_1 ratio_2 ratio_3 ratio_4 ratio_5 ratio_6)

lemma occupancy_1_of_20000:
  "val (round2 (num_mul (int_div 1 20000) (PyInt 100))) = Some (fl (1 / 100))"
  by (simp add: int_div_def float_eval ratio_1 ratio_2 ratio_3 ratio_4 ratio_5 ratio_6)

section \<open>Averages\<close>

lemma safe_mean_unfold:
  "safe_mean series_sum series =
     (if \<forall>v \<in> set series. v = None then PyInt 0
      else NpFloat (np_round (series_mean series_sum (non_null series))))"
proof (cases "\<forall>v \<in> set series. v = None")
  case True
  then have "dropna series = []" by (simp only: dropna_empty_iff)
  with True show ?thesis by (simp add: safe_mean_def)
next
  case False
  then have "dropna series \<noteq> []" by (simp only: dropna_empty_iff not_False_eq_True)
  with False show ?thesis
    by (simp only: safe_mean_def Let_def dropna_non_null if_True if_False simp_thms round2.simps)
qed

text \<open>
  Claim C2, as the code has it. For every list of rows, and in whatever order pandas
  adds the values of a sum, the average review score and the average daily rate are
  each the integer 0 when every review score (respectively price) is null, and
  otherwise the mean of the non-null values, their sum divided by their number,
  rounded to two decimals by NumPy. The value 0 is therefore not a sign of missing
  data: a rounded mean can be 0 as well.
\<close>

theorem averages_rounded_mean:
  "avg_review_score (key_metrics series_sum df) =
     (if \<forall>r \<in> set df. review_score r = None then PyInt 0
      else NpFloat (np_round (series_mean series_sum (non_null (map review_score df)))))
   \<and> adr (key_metrics series_sum df) =
     (if \<forall>r \<in> set df. price r = None then PyInt 0
      else NpFloat (np_round (series_mean series_sum (non_null (map price df)))))"
  by (simp add: key_metrics_def Let_def safe_mean_unfold)

text \<open>The theorem on the specification's three-row scenario and on a row without price.\<close>

theorem averages_rounded_mean_witness:
  "avg_review_score (key_metrics sum_seq
      [example_row (Some ''A'') 1 (Some (Fin 100)) (Some (Fin 8)) (Some 3) ''Morning'',
       example_row (Some ''A'') 1 None (Some (Fin 6)) (Some 3) ''Evening'',
       example_row (Some ''B'') 1 (Some (Fin 200)) None (Some 3) ''Morning'']) = NpFloat (Some (Fin 7))
   \<and> adr (key_metrics sum_seq
      [example_row (Some ''A'') 1 (Some (Fin 100)) (Some (Fin 8)) (Some 3) ''Morning'',
       example_row (Some ''A'') 1 None (Some (Fin 6)) (Some 3) ''Evening'',
       example_row (Some ''B'') 1 (Some (Fin 200)) None (Some 3) ''Morning'']) = NpFloat (Some (Fin 150))
   \<and> adr (key_metrics sum_seq
        [example_row (Some ''A'') 1 None (Some (Fin 6)) (Some 3) ''Evening'']) = PyInt 0"
  using averages_rounded_mean [of sum_seq
      "[example_row (Some ''A'') 1 (Some (Fin 100)) (Some (Fin 8)) (Some 3) ''Morning'',
       example_row (Some ''A'') 1 None (Some (Fin 6)) (Some 3) ''Evening'',
       example_row (Some ''B'') 1 (Some (Fin 200)) None (Some 3) ''Morning'']"]
    averages_rounded_mean [of sum_seq
      "[example_row (Some ''A'') 1 None (Some (Fin 6)) (Some 3) ''Evening'']"]
  by (simp add: example_row_def non_null_def series_mean_def sum_seq_def np_round_def float_eval)

text \<open>
  Claim C2 as stated fails: a single row with price 0 and review score 0 gives both
  averages 0 although neither value is null.
\<close>

theorem averages_zero_counterexample:
  "adr (key_metrics sum_seq
     [example_row (Some ''A'') 1 (Some (Fin 0)) (Some (Fin 0)) (Some 3) ''Morning''])
     = NpFloat (Some (Fin 0))
   \<and> avg_review_score (key_metrics sum_seq
     [example_row (Some ''A'') 1 (Some (Fin 0)) (Some (Fin 0)) (Some 3) ''Morning''])
     = NpFloat (Some (Fin 0))
   \<and> map price [example_row (Some ''A'') 1 (Some (Fin 0)) (Some (Fin 0)) (Some 3) ''Morning'']
       = [Some (Fin 0)]
   \<and> map review_score
        [example_row (Some ''A'') 1 (Some (Fin 0)) (Some (Fin 0)) (Some 3) ''Morning'']
       = [Some (Fin 0)]"
  by (simp add: key_metrics_def Let_def safe_mean_def series_mean_def sum_seq_def np_round_def example_row_def
      float_eval)

text \<open>A check of the arithmetic against Python: the prices 80.02 and 80.03 average to 80.03.\<close>

lemma price_mean_1: "fl (4001 / 50) = Fin (5630906909096673 / 70368744177664)"
  by (rule fl_eqI [where e = 6]) (simp_all add: rhe_numeral_quotient rhe_numeral)

lemma price_mean_2: "fl (8003 / 100) = Fin (2815805298269225 / 35184372088832)"
  by (rule fl_eqI [where e = 6]) (simp_all add: rhe_numeral_quotient rhe_numeral)

lemma price_mean_3: "fl (5630906909096673 / 70368744177664) = Fin (5630906909096673 / 70368744177664)"
  by (rule fl_eqI [where e = 6]) (simp_all add: rhe_numeral_quotient rhe_numeral)

lemma price_mean_4: "fl (11262517505635123 / 70368744177664) = Fin (2815629376408781 / 17592186044416)"
  by (rule fl_eqI [where e = 7]) (simp_all add: rhe_numeral_quotient rhe_numeral)

lemma price_mean_5: "fl (2815629376408781 / 35184372088832) = Fin (2815629376408781 / 35184372088832)"
  by (rule fl_eqI [where e = 6]) (simp_all add: rhe_numeral_quotient rhe_numeral)

lemma price_mean_6: "fl (70390734410219525 / 8796093022208) = Fin (8798841801277441 / 1099511627776)"
  by (rule fl_eqI [where e = 12]) (simp_all add: rhe_numeral_quotient rhe_numeral)

lemma safe_mean_of_two_prices:
  "safe_mean sum_seq [Some (fl (8002 / 100)), Some (fl (8003 / 100))]
     = NpFloat (Some (fl (8003 / 100)))"
  by (simp add: safe_mean_def series_mean_def sum_seq_def np_round_def float_eval price_mean_1 price_mean_2 price_mean_3 price_mean_4 price_mean_5 price_mean_6)

section \<open>RevPAR\<close>

lemma third_1: "fl (1 / 3) = Fin (6004799503160661 / 18014398509481984)"
  by (rule fl_eqI [where e = "- 2"]) (simp_all add: rhe_numeral_quotient rhe_numeral)

lemma third_2: "fl (150119987579016525 / 4503599627370496) = Fin (2345624805922133 / 70368744177664)"
  by (rule fl_eqI [where e = 5]) (simp_all add: rhe_numeral_quotient rhe_numeral)

lemma third_3: "fl (3333 / 100) = Fin (2345390243441541 / 70368744177664)"
  by (rule fl_eqI [where e = 5]) (simp_all add: rhe_numeral_quotient rhe_numeral)

lemma third_4: "fl (2345390243441541 / 7036874417766400) = Fin (6004199023210345 / 18014398509481984)"
  by (rule fl_eqI [where e = "- 2"]) (simp_all add: rhe_numeral_quotient rhe_numeral)

lemma third_5: "fl (450314926740775875 / 4503599627370496) = Fin (7036170730324623 / 70368744177664)"
  by (rule fl_eqI [where e = 6]) (simp_all add: rhe_numeral_quotient rhe_numeral)

lemma third_6: "fl (175904268258115575 / 17592186044416) = Fin (9999)"
  by (rule fl_eqI [where e = 13]) (simp_all add: rhe_numeral_quotient rhe_numeral)

lemma third_7: "fl (9999 / 100) = Fin (7036170730324623 / 70368744177664)"
  by (rule fl_eqI [where e = 6]) (simp_all add: rhe_numeral_quotient rhe_numeral)

lemma third_8: "fl (2345624805922133 / 7036874417766400) = Fin (1501199875790165 / 4503599627370496)"
  by (rule fl_eqI [where e = "- 2"]) (simp_all add: rhe_numeral_quotient rhe_numeral)

lemma third_9: "fl (112589990684262375 / 1125899906842624) = Fin (3518437208883199 / 35184372088832)"
  by (rule fl_eqI [where e = 6]) (simp_all add: rhe_numeral_quotient rhe_numeral)

lemma third_10: "fl (87960930222079975 / 8796093022208) = Fin (2748779069439999 / 274877906944)"
  by (rule fl_eqI [where e = 13]) (simp_all add: rhe_numeral_quotient rhe_numeral)

text \<open>
  Claim C3. The RevPAR figure is the product of the average daily rate and a hundredth
  of the occupancy rate, rounded to two decimals, where the two factors are the
  figures shown beside it, each of them the result of a rounding. It is not the value
  recomputed from the factors before their rounding: for one hotel priced at 300 out
  of three hotels the figure is 99.99 and the recomputed value is 100.
\<close>

theorem revpar_round_then_multiply:
  "revpar (key_metrics series_sum df) =
     round2 (num_mul (adr (key_metrics series_sum df))
                     (div_100 (occupancy_rate (key_metrics series_sum df))))
   \<and> adr (key_metrics series_sum df) = safe_mean series_sum (map price df)
   \<and> occupancy_rate (key_metrics series_sum df) = calculate_occupancy_rate df
   \<and> (\<exists>m. adr (key_metrics series_sum df) = round2 m)
   \<and> (\<exists>c. occupancy_rate (key_metrics series_sum df) = round2 c)
   \<and> revpar (key_metrics sum_seq
        [example_row (Some ''A'') 1 (Some (Fin 300)) None (Some 3) ''Morning'',
       example_row (Some ''B'') 1 None None (Some 3) ''Morning'',
       example_row (Some ''C'') 1 None None (Some 3) ''Morning'']) = NpFloat (Some (fl (9999 / 100)))
   \<and> revpar_from_unrounded sum_seq
        [example_row (Some ''A'') 1 (Some (Fin 300)) None (Some 3) ''Morning'',
       example_row (Some ''B'') 1 None None (Some 3) ''Morning'',
       example_row (Some ''C'') 1 None None (Some 3) ''Morning''] = NpFloat (Some (Fin 100))
   \<and> fl (9999 / 100) \<noteq> Fin 100"
proof (intro conjI)
  show "revpar (key_metrics series_sum df) =
     round2 (num_mul (adr (key_metrics series_sum df))
                     (div_100 (occupancy_rate (key_metrics series_sum df))))"
    by (simp add: key_metrics_def Let_def)
  show "adr (key_metrics series_sum df) = safe_mean series_sum (map price df)"
    by (simp add: key_metrics_def Let_def)
  show "occupancy_rate (key_metrics series_sum df) = calculate_occupancy_rate df"
    by (simp add: key_metrics_def Let_def)
  show "\<exists>m. adr (key_metrics series_sum df) = round2 m"
  proof (cases "dropna (map price df) = []")
    case True
    then have "adr (key_metrics series_sum df) = round2 (PyInt 0)"
      by (simp add: key_metrics_def Let_def safe_mean_def)
    then show ?thesis by blast
  next
    case False
    then have "adr (key_metrics series_sum df)
               = round2 (NpFloat (series_mean series_sum (dropna (map price df))))"
      by (simp add: key_metrics_def Let_def safe_mean_def)
    then show ?thesis by blast
  qed
  show "\<exists>c. occupancy_rate (key_metrics series_sum df) = round2 c"
  proof (cases "df \<noteq> [] \<and> 0 < nunique (map name df)")
    case True
    then have "occupancy_rate (key_metrics series_sum df)
               = round2 (num_mul (int_div (nunique (map name (filter (\<lambda>r. price r \<noteq> None) df)))
                                          (nunique (map name df))) (PyInt 100))"
      by (simp add: key_metrics_def Let_def calculate_occupancy_rate_def)
    then show ?thesis by blast
  next
    case False
    then have "occupancy_rate (key_metrics series_sum df) = round2 (PyInt 0)"
      by (auto simp: key_metrics_def Let_def calculate_occupancy_rate_def)
    then show ?thesis by blast
  qed
  show "revpar (key_metrics sum_seq
        [example_row (Some ''A'') 1 (Some (Fin 300)) None (Some 3) ''Morning'',
       example_row (Some ''B'') 1 None None (Some 3) ''Morning'',
       example_row (Some ''C'') 1 None None (Some 3) ''Morning'']) = NpFloat (Some (fl (9999 / 100)))"
    by (simp add: key_metrics_def safe_mean_def calculate_occupancy_rate_def nunique_def
        int_div_def series_mean_def sum_seq_def np_round_def example_row_def float_eval third_1 third_2 third_3 third_4 third_5 third_6 third_7 third_8 third_9 third_10)
  show "revpar_from_unrounded sum_seq
        [example_row (Some ''A'') 1 (Some (Fin 300)) None (Some 3) ''Morning'',
       example_row (Some ''B'') 1 None None (Some 3) ''Morning'',
       example_row (Some ''C'') 1 None None (Some 3) ''Morning''] = NpFloat (Some (Fin 100))"
    by (simp add: revpar_from_unrounded_def nunique_def
        int_div_def series_mean_def sum_seq_def np_round_def example_row_def float_eval third_1 third_2 third_3 third_4 third_5 third_6 third_7 third_8 third_9 third_10)
  show "fl (9999 / 100) \<noteq> Fin 100"
    by (simp add: third_1 third_2 third_3 third_4 third_5 third_6 third_7 third_8 third_9 third_10)
qed

section \<open>The filter\<close>

lemma ge_iff: "ge v b \<longleftrightarrow> (\<exists>x. v = Some x \<and> b \<le> x)"
  by (cases v) (simp_all add: ge_def)

lemma le_iff: "le v b \<longleftrightarrow> (\<exists>x. v = Some x \<and> x \<le> b)"
  by (cases v) (simp_all add: le_def)

lemma isin_iff: "isin v xs \<longleftrightarrow> (\<exists>h. v = Some h \<and> h \<in> set xs)"
  by (cases v) (simp_all add: isin_def)

lemma between_iff: "ge v a \<and> le v b \<longleftrightarrow> (\<exists>x. v = Some x \<and> a \<le> x \<and> x \<le> b)"
  by (cases v) (simp_all add: ge_def le_def)

lemma filter_hotels_filter:
  "filter_hotels sel df =
     filter (\<lambda>r. sel = [] \<or> (\<exists>h. name r = Some h \<and> h \<in> set sel)) df"
  by (cases "sel = []") (simp_all add: filter_hotels_def isin_iff)

lemma filter_price_filter:
  "filter_price pr df = filter (\<lambda>r. \<exists>p. price r = Some p \<and> fst pr \<le> p \<and> p \<le> snd pr) df"
  by (simp only: filter_price_def between_iff)

lemma length_two: "length dr = 2 \<longleftrightarrow> (\<exists>a b. dr = [a, b])"
proof (cases dr)
  case Nil
  then show ?thesis by simp
next
  case (Cons a as)
  note outer = this
  show ?thesis
  proof (cases as)
    case Nil
    with outer show ?thesis by simp
  next
    case (Cons b bs)
    with outer show ?thesis by (cases bs) simp_all
  qed
qed

lemma filter_dates_two:
  "filter_dates [a, b] df = filter (\<lambda>r. \<exists>d. price_date_dt r = Some d \<and> a \<le> d \<and> d \<le> b) df"
  by (simp only: filter_dates_def list.case between_iff)

lemma filter_dates_other:
  assumes "length dr \<noteq> 2"
  shows "filter_dates dr df = df"
proof (cases dr)
  case Nil
  then show ?thesis by (simp only: filter_dates_def list.case)
next
  case (Cons a as)
  note outer = this
  show ?thesis
  proof (cases as)
    case Nil
    with outer show ?thesis by (simp only: filter_dates_def list.case)
  next
    case (Cons b bs)
    note inner = this
    show ?thesis
    proof (cases bs)
      case Nil
      with outer inner have "length dr = 2" by simp
      with assms show ?thesis by simp
    next
      case (Cons c cs)
      with outer inner show ?thesis by (simp only: filter_dates_def list.case)
    qed
  qed
qed

lemma filter_dates_filter:
  "filter_dates dr df =
     filter (\<lambda>r. length dr = 2 \<longrightarrow> (\<exists>d. price_date_dt r = Some d \<and> dr ! 0 \<le> d \<and> d \<le> dr ! 1)) df"
proof (cases "length dr = 2")
  case True
  then have "\<exists>a b. dr = [a, b]" by (simp only: length_two)
  then obtain a b where ab: "dr = [a, b]" by (elim exE)
  show ?thesis unfolding ab filter_dates_two by simp
next
  case False
  then have "filter_dates dr df = df" by (rule filter_dates_other)
  moreover have "filter (\<lambda>r. length dr = 2 \<longrightarrow>
      (\<exists>d. price_date_dt r = Some d \<and> dr ! 0 \<le> d \<and> d \<le> dr ! 1)) df = df"
    using False by simp
  ultimately show ?thesis by (simp only:)
qed

lemma filtered_by_price_filter:
  "filtered_by_price data sel =
     filter (\<lambda>r. (selected_hotels sel = [] \<or> (\<exists>h. name r = Some h \<and> h \<in> set (selected_hotels sel)))
                \<and> nights r = selected_nights sel
                \<and> persons r = selected_persons sel
                \<and> (\<exists>p. price r = Some p \<and> fst (price_range sel) \<le> p \<and> p \<le> snd (price_range sel)))
       data"
  by (simp only: filtered_by_price_def filter_price_filter filter_stay_def filter_hotels_filter
      filter_filter conj_assoc)

lemma filtered_data_filter: "filtered_data data sel = filter (passes sel) data"
proof -
  have "passes sel = (\<lambda>r.
       ((selected_hotels sel = [] \<or> (\<exists>h. name r = Some h \<and> h \<in> set (selected_hotels sel)))
        \<and> nights r = selected_nights sel
        \<and> persons r = selected_persons sel
        \<and> (\<exists>p. price r = Some p \<and> fst (price_range sel) \<le> p \<and> p \<le> snd (price_range sel)))
       \<and> (length (date_range sel) = 2 \<longrightarrow>
            (\<exists>d. price_date_dt r = Some d \<and> date_range sel ! 0 \<le> d \<and> d \<le> date_range sel ! 1)))"
    by (rule ext) (simp only: passes_def conj_assoc)
  then show ?thesis
    by (simp only: filtered_data_def filter_dates_filter filtered_by_price_filter filter_filter)
qed

text \<open>
  Claim C6. For every table and selection the filter returns, in the order of the
  table, exactly the rows that satisfy all of: the hotel is selected (when any hotel is
  selected), the nights and the persons are the selected ones, the price is not null
  and within the price range, bounds included, and (when the date range has its two
  ends) the date is not null and within the date range, bounds included.
\<close>

theorem filter_is_conjunction:
  "filtered_data data sel = filter (passes sel) data
   \<and> set (filtered_data data sel) = {r \<in> set data. passes sel r}"
  by (simp add: filtered_data_filter)

text \<open>
  The theorem on a table whose rows fail one condition each: a price or a date at a
  bound passes, a null price, a null date, a value beyond a bound, another hotel, a
  null hotel name and another number of nights do not.
\<close>

theorem filter_is_conjunction_witness:
  "filter (passes \<lparr> selected_hotels = [''A''], selected_nights = 1, selected_persons = 2,
                     price_range = (Fin 50, Fin 100), date_range = [3, 5] \<rparr>)
     [example_row (Some ''A'') 1 (Some (Fin 50)) None (Some 3) ''Morning'',
      example_row (Some ''A'') 1 (Some (Fin 100)) None (Some 5) ''Evening'',
      example_row (Some ''A'') 1 None None (Some 4) ''Morning'',
      example_row (Some ''A'') 1 (Some (Fin 70)) None None ''Morning'',
      example_row (Some ''A'') 1 (Some (Fin 101)) None (Some 4) ''Morning'',
      example_row (Some ''A'') 1 (Some (Fin 70)) None (Some 6) ''Morning'',
      example_row (Some ''B'') 1 (Some (Fin 70)) None (Some 4) ''Morning'',
      example_row None 1 (Some (Fin 70)) None (Some 4) ''Morning'',
      example_row (Some ''A'') 2 (Some (Fin 70)) None (Some 4) ''Morning'']
   = [example_row (Some ''A'') 1 (Some (Fin 50)) None (Some 3) ''Morning'',
      example_row (Some ''A'') 1 (Some (Fin 100)) None (Some 5) ''Evening'']"
  using filter_is_conjunction [of
     "[example_row (Some ''A'') 1 (Some (Fin 50)) None (Some 3) ''Morning'',
      example_row (Some ''A'') 1 (Some (Fin 100)) None (Some 5) ''Evening'',
      example_row (Some ''A'') 1 None None (Some 4) ''Morning'',
      example_row (Some ''A'') 1 (Some (Fin 70)) None None ''Morning'',
      example_row (Some ''A'') 1 (Some (Fin 101)) None (Some 4) ''Morning'',
      example_row (Some ''A'') 1 (Some (Fin 70)) None (Some 6) ''Morning'',
      example_row (Some ''B'') 1 (Some (Fin 70)) None (Some 4) ''Morning'',
      example_row None 1 (Some (Fin 70)) None (Some 4) ''Morning'',
      example_row (Some ''A'') 2 (Some (Fin 70)) None (Some 4) ''Morning'']"
     "\<lparr> selected_hotels = [''A''], selected_nights = 1, selected_persons = 2,
                     price_range = (Fin 50, Fin 100), date_range = [3, 5] \<rparr>"]
  by (simp add: filtered_data_def filtered_by_price_def filter_dates_def filter_price_def
      filter_stay_def filter_hotels_def isin_def ge_def le_def example_row_def)

text \<open>
  Claim C10. The date step of the filter changes nothing unless the date range has
  exactly two ends: with fewer (or more) the result is the table as filtered by hotel,
  nights, persons and price, whatever the dates of its rows; with two ends it keeps of
  these rows those dated within the range. The steps before it do not look at the date
  range.
\<close>

theorem date_filter_needs_two_endpoints:
  "(length (date_range sel) \<noteq> 2 \<longrightarrow> filtered_data data sel = filtered_by_price data sel)
   \<and> (length (date_range sel) = 2 \<longrightarrow>
        filtered_data data sel =
          filter (\<lambda>r. \<exists>d. price_date_dt r = Some d
                          \<and> date_range sel ! 0 \<le> d \<and> d \<le> date_range sel ! 1)
            (filtered_by_price data sel))
   \<and> filtered_by_price data sel = filtered_by_price data (sel\<lparr>date_range := []\<rparr>)"
proof (intro conjI impI)
  assume "length (date_range sel) \<noteq> 2"
  then show "filtered_data data sel = filtered_by_price data sel"
    by (simp add: filtered_data_def filter_dates_other)
next
  assume "length (date_range sel) = 2"
  then have "\<exists>a b. date_range sel = [a, b]" by (simp only: length_two)
  then obtain a b where ab: "date_range sel = [a, b]" by (elim exE)
  show "filtered_data data sel =
          filter (\<lambda>r. \<exists>d. price_date_dt r = Some d
                          \<and> date_range sel ! 0 \<le> d \<and> d \<le> date_range sel ! 1)
            (filtered_by_price data sel)"
    unfolding filtered_data_def ab filter_dates_two by simp
next
  show "filtered_by_price data sel = filtered_by_price data (sel\<lparr>date_range := []\<rparr>)"
    by (simp add: filtered_by_price_def)
qed


text \<open>
  The theorem with one selected date, where rows of an earlier, a later and a null
  date all pass, and with two.
\<close>

theorem date_filter_needs_two_endpoints_witness:
  "filtered_data
     [example_row (Some ''A'') 1 (Some (Fin 50)) None (Some 3) ''Morning'',
      example_row (Some ''A'') 1 (Some (Fin 60)) None (Some 9) ''Evening'',
      example_row (Some ''A'') 1 (Some (Fin 70)) None None ''Morning'']
     \<lparr> selected_hotels = [], selected_nights = 1, selected_persons = 2,
       price_range = (Fin 50, Fin 100), date_range = [5] \<rparr>
   = [example_row (Some ''A'') 1 (Some (Fin 50)) None (Some 3) ''Morning'',
      example_row (Some ''A'') 1 (Some (Fin 60)) None (Some 9) ''Evening'',
      example_row (Some ''A'') 1 (Some (Fin 70)) None None ''Morning'']
   \<and> filtered_data
     [example_row (Some ''A'') 1 (Some (Fin 50)) None (Some 3) ''Morning'',
      example_row (Some ''A'') 1 (Some (Fin 60)) None (Some 9) ''Evening'',
      example_row (Some ''A'') 1 (Some (Fin 70)) None None ''Morning'']
     \<lparr> selected_hotels = [], selected_nights = 1, selected_persons = 2,
       price_range = (Fin 50, Fin 100), date_range = [5, 9] \<rparr>
   = [example_row (Some ''A'') 1 (Some (Fin 60)) None (Some 9) ''Evening'']"
  using date_filter_needs_two_endpoints [of
     "\<lparr> selected_hotels = [], selected_nights = 1, selected_persons = 2,
       price_range = (Fin 50, Fin 100), date_range = [5] \<rparr>"
     "[example_row (Some ''A'') 1 (Some (Fin 50)) None (Some 3) ''Morning'',
      example_row (Some ''A'') 1 (Some (Fin 60)) None (Some 9) ''Evening'',
      example_row (Some ''A'') 1 (Some (Fin 70)) None None ''Morning'']"]
    date_filter_needs_two_endpoints [of
     "\<lparr> selected_hotels = [], selected_nights = 1, selected_persons = 2,
       price_range = (Fin 50, Fin 100), date_range = [5, 9] \<rparr>"
     "[example_row (Some ''A'') 1 (Some (Fin 50)) None (Some 3) ''Morning'',
      example_row (Some ''A'') 1 (Some (Fin 60)) None (Some 9) ''Evening'',
      example_row (Some ''A'') 1 (Some (Fin 70)) None None ''Morning'']"]
  by (simp add: filtered_by_price_def filter_price_def
      filter_stay_def filter_hotels_def isin_def ge_def le_def example_row_def)


section \<open>The filtered table\<close>

lemma filtered_rows_pass: "r \<in> set (filtered_data data sel) \<Longrightarrow> r \<in> set data \<and> passes sel r"
  by (simp add: filtered_data_filter)

lemma filtered_rows_priced: "r \<in> set (filtered_data data sel) \<Longrightarrow> price r \<noteq> None"
proof -
  assume "r \<in> set (filtered_data data sel)"
  then have "passes sel r" by (simp add: filtered_data_filter)
  then obtain p where "price r = Some p" unfolding passes_def by blast
  then show ?thesis by simp
qed

lemma all_priced_hotels:
  assumes "\<forall>r \<in> set df. price r \<noteq> None"
  shows "hotels_with_price df = distinct_hotels df"
  using assms unfolding hotels_with_price_def distinct_hotels_def by blast

lemma no_hotels_iff: "card (distinct_hotels df) = 0 \<longleftrightarrow> (\<forall>r \<in> set df. name r = None)"
proof -
  have "card (distinct_hotels df) = 0 \<longleftrightarrow> distinct_hotels df = {}"
    using finite_distinct_hotels [of df] by simp
  also have "\<dots> \<longleftrightarrow> (\<forall>r \<in> set df. name r = None)"
  proof
    assume e: "distinct_hotels df = {}"
    show "\<forall>r \<in> set df. name r = None"
    proof
      fix r
      assume r: "r \<in> set df"
      show "name r = None"
      proof (cases "name r")
        case None
        then show ?thesis .
      next
        case (Some h)
        with r have "h \<in> distinct_hotels df" unfolding distinct_hotels_def by blast
        with e show ?thesis by simp
      qed
    qed
  next
    assume "\<forall>r \<in> set df. name r = None"
    then show "distinct_hotels df = {}" unfolding distinct_hotels_def by auto
  qed
  finally show ?thesis .
qed

lemma py_round_hundred: "py_round (Some (Fin 100)) = Some (Fin 100)"
  by (simp add: float_eval)

lemma occupancy_all_priced:
  assumes "\<forall>r \<in> set df. price r \<noteq> None"
  shows "val (calculate_occupancy_rate df) =
           (if \<forall>r \<in> set df. name r = None then Some (Fin 0) else Some (Fin 100))"
proof (cases "card (distinct_hotels df) = 0")
  case True
  then show ?thesis using no_hotels_iff [of df] by (simp add: occupancy_unfold)
next
  case False
  then have ne: "(of_nat (card (distinct_hotels df)) :: rat) \<noteq> 0" by simp
  have "(of_nat (card (hotels_with_price df)) :: rat) / of_nat (card (distinct_hotels df)) = 1"
    using ne by (simp add: all_priced_hotels [OF assms])
  then have "val (calculate_occupancy_rate df) = py_round (fmul (Some (fl 1)) (Some (Fin 100)))"
    using False by (simp only: occupancy_unfold if_False)
  also have "\<dots> = Some (Fin 100)" by (simp add: float_eval)
  finally show ?thesis using False no_hotels_iff [of df] by simp
qed

lemma non_null_all:
  assumes "\<forall>r \<in> set df. f r \<noteq> None"
  shows "non_null (map f df) = map (the \<circ> f) df"
proof -
  have "filter (\<lambda>v. v \<noteq> None) (map f df) = map f df"
    using assms by (simp add: filter_id_conv)
  then show ?thesis by (simp add: non_null_def)
qed

text \<open>
  Claim C9, as the code has it. The price step of the filter is always applied, so
  every row of the filtered table has a price. Hence on a filtered table that is not
  empty the average daily rate is the rounded mean of the prices of all its rows, not
  the default; and its occupancy rate is 100 when some row has a hotel name, and 0 when
  none has.
\<close>

theorem filtered_rows_have_price:
  "(\<forall>r \<in> set (filtered_data data sel). price r \<noteq> None)
   \<and> (filtered_data data sel \<noteq> [] \<longrightarrow>
        adr (key_metrics series_sum (filtered_data data sel)) =
          NpFloat (np_round (series_mean series_sum (map (the \<circ> price) (filtered_data data sel)))))
   \<and> ((\<exists>r \<in> set (filtered_data data sel). name r \<noteq> None) \<longrightarrow>
        val (occupancy_rate (key_metrics series_sum (filtered_data data sel))) = Some (Fin 100))
   \<and> ((\<forall>r \<in> set (filtered_data data sel). name r = None) \<longrightarrow>
        val (occupancy_rate (key_metrics series_sum (filtered_data data sel))) = Some (Fin 0))"
proof -
  let ?fd = "filtered_data data sel"
  have priced: "\<forall>r \<in> set ?fd. price r \<noteq> None" by (simp add: filtered_rows_priced)
  have occ: "occupancy_rate (key_metrics series_sum ?fd) = calculate_occupancy_rate ?fd"
    by (simp add: key_metrics_def Let_def)
  have a: "?fd \<noteq> [] \<longrightarrow>
        adr (key_metrics series_sum ?fd) = NpFloat (np_round (series_mean series_sum (map (the \<circ> price) ?fd)))"
  proof
    assume "?fd \<noteq> []"
    then obtain r where "r \<in> set ?fd" by (cases ?fd) auto
    with priced have "\<not> (\<forall>r \<in> set ?fd. price r = None)" by blast
    then have "adr (key_metrics series_sum ?fd) =
                 NpFloat (np_round (series_mean series_sum (non_null (map price ?fd))))"
      by (simp add: key_metrics_def Let_def safe_mean_unfold)
    then show "adr (key_metrics series_sum ?fd) =
                 NpFloat (np_round (series_mean series_sum (map (the \<circ> price) ?fd)))"
      by (simp only: non_null_all [OF priced])
  qed
  have b: "(\<exists>r \<in> set ?fd. name r \<noteq> None) \<longrightarrow>
        val (occupancy_rate (key_metrics series_sum ?fd)) = Some (Fin 100)"
    unfolding occ occupancy_all_priced [OF priced] by auto
  have c: "(\<forall>r \<in> set ?fd. name r = None) \<longrightarrow>
        val (occupancy_rate (key_metrics series_sum ?fd)) = Some (Fin 0)"
    unfolding occ occupancy_all_priced [OF priced] by auto
  from priced a b c show ?thesis by (intro conjI)
qed

text \<open>
  The theorem on a table of two priced rows of one hotel and nights, where the filter
  keeps both.
\<close>

theorem filtered_rows_have_price_witness:
  "filtered_data
     [example_row (Some ''A'') 1 (Some (Fin 100)) None (Some 3) ''Morning'',
      example_row (Some ''A'') 1 (Some (Fin 200)) None (Some 4) ''Evening'']
     \<lparr> selected_hotels = [], selected_nights = 1, selected_persons = 2,
       price_range = (Fin 100, Fin 200), date_range = [3, 4] \<rparr>
   = [example_row (Some ''A'') 1 (Some (Fin 100)) None (Some 3) ''Morning'',
      example_row (Some ''A'') 1 (Some (Fin 200)) None (Some 4) ''Evening'']
   \<and> adr (key_metrics sum_seq
       [example_row (Some ''A'') 1 (Some (Fin 100)) None (Some 3) ''Morning'',
        example_row (Some ''A'') 1 (Some (Fin 200)) None (Some 4) ''Evening''])
     = NpFloat (Some (Fin 150))
   \<and> val (occupancy_rate (key_metrics sum_seq
       [example_row (Some ''A'') 1 (Some (Fin 100)) None (Some 3) ''Morning'',
        example_row (Some ''A'') 1 (Some (Fin 200)) None (Some 4) ''Evening'']))
     = Some (Fin 100)"
proof -
  let ?t = "[example_row (Some ''A'') 1 (Some (Fin 100)) None (Some 3) ''Morning'',
      example_row (Some ''A'') 1 (Some (Fin 200)) None (Some 4) ''Evening'']"
  let ?s = "\<lparr> selected_hotels = [], selected_nights = 1, selected_persons = 2,
       price_range = (Fin 100, Fin 200), date_range = [3, 4] \<rparr>"
  have f: "filtered_data ?t ?s = ?t"
    by (simp add: filtered_data_def filtered_by_price_def filter_dates_def filter_price_def
        filter_stay_def filter_hotels_def ge_def le_def example_row_def)
  have named: "\<exists>r \<in> set ?t. name r \<noteq> None" by (simp add: example_row_def)
  have "adr (key_metrics sum_seq ?t) = NpFloat (np_round (series_mean sum_seq (map (the \<circ> price) ?t)))"
    using filtered_rows_have_price [of ?t ?s sum_seq] unfolding f by simp
  then have "adr (key_metrics sum_seq ?t) = NpFloat (Some (Fin 150))"
    by (simp add: example_row_def series_mean_def sum_seq_def np_round_def float_eval)
  moreover have "val (occupancy_rate (key_metrics sum_seq ?t)) = Some (Fin 100)"
    using filtered_rows_have_price [of ?t ?s sum_seq] named unfolding f by blast
  ultimately show ?thesis using f by simp
qed

text \<open>
  Claim C9 as stated fails: a priced row without hotel name passes the filter when no
  hotel is selected, and the occupancy rate of that filtered table is 0, not 100.
\<close>

theorem occupancy_of_filtered_counterexample:
  "filtered_data
     [example_row None 1 (Some (Fin 50)) None (Some 3) ''Morning'']
     \<lparr> selected_hotels = [], selected_nights = 1, selected_persons = 2,
       price_range = (Fin 50, Fin 50), date_range = [3, 3] \<rparr>
   = [example_row None 1 (Some (Fin 50)) None (Some 3) ''Morning'']
   \<and> val (occupancy_rate (key_metrics sum_seq
          [example_row None 1 (Some (Fin 50)) None (Some 3) ''Morning''])) = Some (Fin 0)"
  by (simp add: filtered_data_def filtered_by_price_def filter_dates_def filter_price_def
      filter_stay_def filter_hotels_def ge_def le_def example_row_def key_metrics_def Let_def
      calculate_occupancy_rate_def nunique_def float_eval)

section \<open>The default selection\<close>

lemma sort_remdups_head:
  assumes "sort (remdups xs) = n # ns"
  shows "n = Min (set xs)"
proof -
  have s: "set (n # ns) = set xs" using assms by (metis set_sort set_remdups)
  have "sorted (n # ns)" using assms by (metis sorted_sort)
  then have le: "\<forall>x \<in> set ns. n \<le> x" by simp
  have "Min (set xs) = n"
  proof (rule Min_eqI)
    show "finite (set xs)" by simp
    show "n \<in> set xs" using s by auto
    fix y
    assume "y \<in> set xs"
    then have "y \<in> set (n # ns)" using s by simp
    then show "n \<le> y" using le by auto
  qed
  then show ?thesis by simp
qed

lemma fold_min_le:
  fixes x :: "'a::linorder"
  assumes "y \<in> set (x # xs)"
  shows "fold min xs x \<le> y"
proof -
  have "fold min xs x = Min (set (x # xs))" by (simp only: Min.set_eq_fold)
  moreover have "Min (set (x # xs)) \<le> y" using assms by (intro Min_le) simp_all
  ultimately show ?thesis by simp
qed

lemma fold_max_ge:
  fixes x :: "'a::linorder"
  assumes "y \<in> set (x # xs)"
  shows "y \<le> fold max xs x"
proof -
  have "fold max xs x = Max (set (x # xs))" by (simp only: Max.set_eq_fold)
  moreover have "y \<le> Max (set (x # xs))" using assms by (intro Max_ge) simp_all
  ultimately show ?thesis by simp
qed

lemma map_filter_mem: "r \<in> set xs \<Longrightarrow> f r = Some v \<Longrightarrow> v \<in> set (List.map_filter f xs)"
  by (force simp: List.map_filter_def)

lemma default_passes:
  assumes d: "default_selection data = Some sel" and r: "r \<in> set data"
  shows "passes sel r \<longleftrightarrow>
           nights r = selected_nights sel \<and> persons r = selected_persons sel
           \<and> price r \<noteq> None \<and> price_date_dt r \<noteq> None"
proof -
  obtain n ns p ps dt dts where
    n: "sort (remdups (map nights data)) = n # ns" and
    p: "sort (remdups (map persons data)) = p # ps" and
    dl: "List.map_filter (\<lambda>r. price_date_dt r) data = dt # dts" and
    sel: "sel = \<lparr> selected_hotels = [], selected_nights = n, selected_persons = p,
                 price_range =
                   (case List.map_filter (\<lambda>r. price r) data of
                      [] \<Rightarrow> (Fin 0, Fin 1000)
                    | x # xs \<Rightarrow> (fold min xs x, fold max xs x)),
                 date_range = [fold min dts dt, fold max dts dt] \<rparr>"
    using d unfolding default_selection_def by (auto split: list.splits)
  have price_ok: "fst (price_range sel) \<le> v \<and> v \<le> snd (price_range sel)"
    if "price r = Some v" for v
  proof -
    have v: "v \<in> set (List.map_filter (\<lambda>r. price r) data)" using r that by (rule map_filter_mem)
    then obtain x xs where xs: "List.map_filter (\<lambda>r. price r) data = x # xs"
      by (cases "List.map_filter (\<lambda>r. price r) data") auto
    then have "price_range sel = (fold min xs x, fold max xs x)" by (simp add: sel)
    moreover have "fold min xs x \<le> v" using v unfolding xs by (rule fold_min_le)
    moreover have "v \<le> fold max xs x" using v unfolding xs by (rule fold_max_ge)
    ultimately show ?thesis by simp
  qed
  have date_ok: "date_range sel ! 0 \<le> v \<and> v \<le> date_range sel ! 1"
    if "price_date_dt r = Some v" for v
  proof -
    have v: "v \<in> set (dt # dts)" using r that unfolding dl [symmetric] by (rule map_filter_mem)
    have "fold min dts dt \<le> v" using v by (rule fold_min_le)
    moreover have "v \<le> fold max dts dt" using v by (rule fold_max_ge)
    ultimately show ?thesis by (simp add: sel)
  qed
  have len: "length (date_range sel) = 2" by (simp add: sel)
  have hot: "selected_hotels sel = []" by (simp add: sel)
  show ?thesis
  proof
    assume "passes sel r"
    then show "nights r = selected_nights sel \<and> persons r = selected_persons sel
           \<and> price r \<noteq> None \<and> price_date_dt r \<noteq> None"
      unfolding passes_def using len by auto
  next
    assume a: "nights r = selected_nights sel \<and> persons r = selected_persons sel
           \<and> price r \<noteq> None \<and> price_date_dt r \<noteq> None"
    then obtain v w where v: "price r = Some v" and w: "price_date_dt r = Some w" by auto
    show "passes sel r"
      unfolding passes_def using a hot v w price_ok [OF v] date_ok [OF w] by simp
  qed
qed

lemma default_values:
  assumes "default_selection data = Some sel"
  shows "selected_hotels sel = [] \<and> selected_nights sel = Min (nights ` set data)
         \<and> selected_persons sel = Min (persons ` set data)"
proof -
  obtain n ns p ps where
    n: "sort (remdups (map nights data)) = n # ns" and
    p: "sort (remdups (map persons data)) = p # ps" and
    sel: "selected_hotels sel = []" "selected_nights sel = n" "selected_persons sel = p"
    using assms unfolding default_selection_def by (auto split: list.splits)
  have "n = Min (set (map nights data))" using n by (rule sort_remdups_head)
  moreover have "p = Min (set (map persons data))" using p by (rule sort_remdups_head)
  ultimately show ?thesis using sel by simp
qed

text \<open>
  Claim C7, as the code has it. With no hotel selected, the default nights and persons
  (the smallest values of the table) and the price and date ranges spanning all prices
  and dates of the table, the filter returns exactly the rows with these nights and
  persons whose price and date are not null. It returns the table unchanged exactly
  when every row is such a row.
\<close>

theorem default_filter_result:
  assumes "default_selection data = Some sel"
  shows "selected_hotels sel = []
         \<and> selected_nights sel = Min (nights ` set data)
         \<and> selected_persons sel = Min (persons ` set data)
         \<and> filtered_data data sel =
             filter (\<lambda>r. nights r = selected_nights sel \<and> persons r = selected_persons sel
                          \<and> price r \<noteq> None \<and> price_date_dt r \<noteq> None) data
         \<and> (filtered_data data sel = data \<longleftrightarrow>
              (\<forall>r \<in> set data. nights r = selected_nights sel \<and> persons r = selected_persons sel
                                \<and> price r \<noteq> None \<and> price_date_dt r \<noteq> None))"
proof -
  have f: "filtered_data data sel =
             filter (\<lambda>r. nights r = selected_nights sel \<and> persons r = selected_persons sel
                          \<and> price r \<noteq> None \<and> price_date_dt r \<noteq> None) data"
    unfolding filtered_data_filter
    by (rule filter_cong) (simp_all only: default_passes [OF assms])
  have "filtered_data data sel = data \<longleftrightarrow>
              (\<forall>r \<in> set data. nights r = selected_nights sel \<and> persons r = selected_persons sel
                                \<and> price r \<noteq> None \<and> price_date_dt r \<noteq> None)"
    unfolding f by (rule filter_id_conv)
  with f default_values [OF assms] show ?thesis by (intro conjI) simp_all
qed

text \<open>
  The theorem on a table of two rows with the same nights, both priced and dated: the
  default selection keeps both.
\<close>

theorem default_filter_result_witness:
  "default_selection
     [example_row (Some ''A'') 1 (Some (Fin 100)) None (Some 3) ''Morning'',
      example_row (Some ''B'') 1 (Some (Fin 200)) None (Some 4) ''Evening'']
   = Some \<lparr> selected_hotels = [], selected_nights = 1, selected_persons = 2,
            price_range = (Fin 100, Fin 200), date_range = [3, 4] \<rparr>
   \<and> filtered_data
     [example_row (Some ''A'') 1 (Some (Fin 100)) None (Some 3) ''Morning'',
      example_row (Some ''B'') 1 (Some (Fin 200)) None (Some 4) ''Evening'']
     \<lparr> selected_hotels = [], selected_nights = 1, selected_persons = 2,
       price_range = (Fin 100, Fin 200), date_range = [3, 4] \<rparr>
   = [example_row (Some ''A'') 1 (Some (Fin 100)) None (Some 3) ''Morning'',
      example_row (Some ''B'') 1 (Some (Fin 200)) None (Some 4) ''Evening'']"
proof -
  let ?t = "[example_row (Some ''A'') 1 (Some (Fin 100)) None (Some 3) ''Morning'',
      example_row (Some ''B'') 1 (Some (Fin 200)) None (Some 4) ''Evening'']"
  let ?s = "\<lparr> selected_hotels = [], selected_nights = 1, selected_persons = 2,
            price_range = (Fin 100, Fin 200), date_range = [3, 4] \<rparr>"
  have d: "default_selection ?t = Some ?s"
    by (simp add: default_selection_def example_row_def List.map_filter_simps min_def max_def)
  have "filtered_data ?t ?s = ?t \<longleftrightarrow>
          (\<forall>r \<in> set ?t. nights r = selected_nights ?s \<and> persons r = selected_persons ?s
                          \<and> price r \<noteq> None \<and> price_date_dt r \<noteq> None)"
    using default_filter_result [OF d] by blast
  moreover have "\<forall>r \<in> set ?t. nights r = selected_nights ?s \<and> persons r = selected_persons ?s
                          \<and> price r \<noteq> None \<and> price_date_dt r \<noteq> None"
    by (simp add: example_row_def)
  ultimately have "filtered_data ?t ?s = ?t" by blast
  with d show ?thesis by (intro conjI)
qed

text \<open>
  Claim C7 as stated fails: of three rows, one for one night, one for two nights and
  one for one night without price, the default selection keeps the first only.
\<close>

theorem default_filter_counterexample:
  "default_selection
     [example_row (Some ''A'') 1 (Some (Fin 100)) None (Some 3) ''Morning'',
      example_row (Some ''A'') 2 (Some (Fin 150)) None (Some 3) ''Morning'',
      example_row (Some ''B'') 1 None None (Some 4) ''Morning'']
   = Some \<lparr> selected_hotels = [], selected_nights = 1, selected_persons = 2,
            price_range = (Fin 100, Fin 150), date_range = [3, 4] \<rparr>
   \<and> filtered_data
     [example_row (Some ''A'') 1 (Some (Fin 100)) None (Some 3) ''Morning'',
      example_row (Some ''A'') 2 (Some (Fin 150)) None (Some 3) ''Morning'',
      example_row (Some ''B'') 1 None None (Some 4) ''Morning'']
     \<lparr> selected_hotels = [], selected_nights = 1, selected_persons = 2,
       price_range = (Fin 100, Fin 150), date_range = [3, 4] \<rparr>
   = [example_row (Some ''A'') 1 (Some (Fin 100)) None (Some 3) ''Morning'']"
  by (simp add: default_selection_def example_row_def List.map_filter_simps min_def max_def
      filtered_data_def filtered_by_price_def filter_dates_def filter_price_def
      filter_stay_def filter_hotels_def ge_def le_def)

section \<open>No data\<close>

lemma read_files_all_fail:
  "\<forall>f \<in> set files. \<exists>e. read_csv pd f = Inl e \<Longrightarrow> fst (read_files pd files) = []"
proof (induction files)
  case Nil
  show ?case by simp
next
  case (Cons f files)
  then obtain e where e: "read_csv pd f = Inl e" by auto
  have "fst (read_files pd files) = []" using Cons by simp
  then show ?case using e by (simp add: split_beta)
qed

lemma load_data_nothing_read:
  "fst (read_files pd files) = [] \<Longrightarrow> load_data pd files = ([], snd (read_files pd files))"
  by (simp add: load_data_def split_beta)

text \<open>
  Claim C8. When no file can be read the loaded table is empty; and whenever the
  loaded table is empty the page is the stop with the messages of the failed files and
  the no-data message, whatever the user's selections and the order of summation would
  have been: neither the filter nor the metrics enter the result. With a table that
  is not empty the page is a dashboard.
\<close>

theorem no_data_stops:
  "((\<forall>f \<in> set files. \<exists>e. read_csv pd f = Inl e) \<longrightarrow> fst (load_data pd files) = [])
   \<and> (fst (load_data pd files) = [] \<longrightarrow>
        app pd series_sum files user = Stopped (snd (load_data pd files) @ [no_data_message]))
   \<and> (fst (load_data pd files) \<noteq> [] \<longrightarrow>
        (\<exists>errs fd k c. app pd series_sum files user = Dashboard errs fd k c))"
proof (intro conjI impI)
  assume "\<forall>f \<in> set files. \<exists>e. read_csv pd f = Inl e"
  then have "fst (read_files pd files) = []" by (rule read_files_all_fail)
  then show "fst (load_data pd files) = []" by (simp add: load_data_nothing_read)
next
  assume "fst (load_data pd files) = []"
  then show "app pd series_sum files user = Stopped (snd (load_data pd files) @ [no_data_message])"
    by (simp add: app_def split_beta)
next
  assume "fst (load_data pd files) \<noteq> []"
  then show "\<exists>errs fd k c. app pd series_sum files user = Dashboard errs fd k c"
    by (simp add: app_def split_beta Let_def)
qed

text \<open>The theorem for a folder of two files that both fail to parse.\<close>

theorem no_data_stops_witness:
  "app \<lparr> read_csv = (\<lambda>f. Inl ''bad file''), to_numeric = (\<lambda>c :: unit. None),
         to_datetime = (\<lambda>c. None), day_name = weekday_of \<rparr>
       sum_seq [''csv_files/a_Mor.csv'', ''csv_files/a_Eve.csv'']
       (\<lambda>data. \<lparr> selected_hotels = [], selected_nights = 1, selected_persons = 2,
                  price_range = (Fin 0, Fin 1000), date_range = [] \<rparr>)
   = Stopped [''Error loading csv_files/a_Mor.csv: bad file'',
              ''Error loading csv_files/a_Eve.csv: bad file'', no_data_message]"
proof -
  let ?pd = "\<lparr> read_csv = (\<lambda>f. Inl ''bad file''), to_numeric = (\<lambda>c :: unit. None),
         to_datetime = (\<lambda>c. None), day_name = weekday_of \<rparr>"
  let ?files = "[''csv_files/a_Mor.csv'', ''csv_files/a_Eve.csv'']"
  let ?user = "\<lambda>data :: row list. \<lparr> selected_hotels = [], selected_nights = 1,
                  selected_persons = 2, price_range = (Fin 0, Fin 1000), date_range = [] \<rparr>"
  have "\<forall>f \<in> set ?files. \<exists>e. read_csv ?pd f = Inl e" by simp
  then have "fst (load_data ?pd ?files) = []"
    using no_data_stops [of ?files ?pd sum_seq ?user] by blast
  then have "app ?pd sum_seq ?files ?user = Stopped (snd (load_data ?pd ?files) @ [no_data_message])"
    using no_data_stops [of ?files ?pd sum_seq ?user] by blast
  moreover have "snd (load_data ?pd ?files) =
    [''Error loading csv_files/a_Mor.csv: bad file'', ''Error loading csv_files/a_Eve.csv: bad file'']"
    by (simp add: load_data_def)
  ultimately show ?thesis by simp
qed


end
